theory Spec2Isabelle
  imports Main "HOL-Library.Word" "HOL-Library.Multiset"
begin

section \<open>Strings\<close>

text \<open>
  A JavaScript string is a sequence of 16-bit code units; \<open>length\<close>, \<open>slice\<close> and
  \<open>trim\<close> count and inspect code units. \<open>lit\<close> embeds an ASCII literal of the source.
\<close>

type_synonym jsstring = "16 word list"

definition lit :: "string \<Rightarrow> jsstring" where
  "lit s = map (\<lambda>c. of_nat (of_char c)) s"

text \<open>
  The code units \<open>String.prototype.trim\<close> strips: ECMAScript's WhiteSpace (TAB, VT, FF,
  SP, NBSP, ZWNBSP and the Unicode space separators) and LineTerminator (LF, CR, LS, PS).
  All of them lie in the basic plane, so the test is one on single code units.
\<close>

definition isWhiteSpace :: "16 word \<Rightarrow> bool" where
  "isWhiteSpace u \<longleftrightarrow>
     u \<in> set [0x9, 0xA, 0xB, 0xC, 0xD, 0x20, 0xA0, 0x1680, 0x2028, 0x2029,
               0x202F, 0x205F, 0x3000, 0xFEFF]
     \<or> (0x2000 \<le> u \<and> u \<le> 0x200A)"

definition trim :: "jsstring \<Rightarrow> jsstring" where
  "trim s = rev (dropWhile isWhiteSpace (rev (dropWhile isWhiteSpace s)))"

text \<open>
  \<open>s.slice(start, end)\<close> with integer arguments: a negative index counts from the end,
  both are clamped to the string, and an empty range gives the empty string.
\<close>

definition slice :: "jsstring \<Rightarrow> int \<Rightarrow> int \<Rightarrow> jsstring" where
  "slice s start end =
     (let len = int (length s);
          from = (if start < 0 then max (len + start) 0 else min start len);
          to = (if end < 0 then max (len + end) 0 else min end len)
      in take (nat (max (to - from) 0)) (drop (nat from) s))"

text \<open>ASCII lower case: the code units of \<open>A\<close> to \<open>Z\<close> are replaced by those of \<open>a\<close> to \<open>z\<close>.\<close>

definition ascii_lower :: "jsstring \<Rightarrow> jsstring" where
  "ascii_lower s = map (\<lambda>u. if 0x41 \<le> u \<and> u \<le> 0x5A then u + 0x20 else u) s"


section \<open>The document tree\<close>

text \<open>
  The page is an HTML document. An element has a namespace (or none), a prefix (or
  none), a local name and an \<open>is\<close> value (or none); an attribute has a namespace, a
  prefix, a local name and a value. The qualified name of either is the local name, with
  the prefix and a colon in front when there is a prefix; \<open>attr.name\<close> is the
  attribute's qualified name.
\<close>

datatype namespace = HTML | SVG | MathML | XLink | XML | XMLNS | Foreign jsstring

datatype tag =
  Tag (tag_ns: "namespace option") (tag_prefix: "jsstring option") (tag_local: jsstring)
      (tag_is: "jsstring option")

datatype attribute =
  Attr (attr_ns: "namespace option") (attr_prefix: "jsstring option") (attr_local: jsstring)
       (attr_value: jsstring)

definition qname :: "jsstring option \<Rightarrow> jsstring \<Rightarrow> jsstring" where
  "qname p l = (case p of None \<Rightarrow> l | Some q \<Rightarrow> q @ lit '':'' @ l)"

definition attr_name :: "attribute \<Rightarrow> jsstring" where
  "attr_name at = qname (attr_prefix at) (attr_local at)"

text \<open>What the HTML parser makes of \<open><name ...>\<close> and of \<open>key="value"\<close> in HTML content.\<close>

definition html_el :: "string \<Rightarrow> tag" where
  "html_el name = Tag (Some HTML) None (lit name) None"

definition plain :: "string \<Rightarrow> string \<Rightarrow> attribute" where
  "plain k v = Attr None None (lit k) (lit v)"

definition is_template :: "tag \<Rightarrow> bool" where
  "is_template t \<longleftrightarrow> tag_ns t = Some HTML \<and> tag_local t = lit ''template''"

text \<open>
  A node is an element, a text node with its data, or a node of any other kind (a
  comment, say) with its data. An element has its attribute list in insertion order, its
  child list and, when it is a \<open>template\<close> element, its template contents: the children
  of the document fragment that the browser keeps beside the child list. The contents
  are no children of the element: \<open>firstChild\<close>, \<open>nextSibling\<close> and \<open>querySelectorAll\<close> do
  not reach them.

  Every node object has an identity, its address: the program holds references to nodes
  and mutates them in place, so two references denote the same node exactly when they
  carry the same address.
\<close>

type_synonym addr = nat

datatype node =
    Element addr tag "attribute list" "node list" "node list"
  | Text addr jsstring
  | Other addr jsstring

fun addr_of :: "node \<Rightarrow> addr" where
  "addr_of (Element a t as cs ts) = a"
| "addr_of (Text a v) = a"
| "addr_of (Other a v) = a"

fun childNodes :: "node \<Rightarrow> node list" where
  "childNodes (Element a t as cs ts) = cs"
| "childNodes (Text a v) = []"
| "childNodes (Other a v) = []"

fun attributes :: "node \<Rightarrow> attribute list" where
  "attributes (Element a t as cs ts) = as"
| "attributes (Text a v) = []"
| "attributes (Other a v) = []"

text \<open>
  The nodes of a subtree in document order, the root first: the root and its
  descendants along the child lists.
\<close>

fun nodes :: "node \<Rightarrow> node list" where
  "nodes (Element a t as cs ts) = Element a t as cs ts # concat (map nodes cs)"
| "nodes (Text a v) = [Text a v]"
| "nodes (Other a v) = [Other a v]"

definition descendants :: "node \<Rightarrow> node list" where
  "descendants n = concat (map nodes (childNodes n))"

text \<open>
  The node objects a subtree holds: its nodes and, for every template among them, the
  node objects of the template contents. Their addresses are the addresses the subtree
  uses.
\<close>

fun objects :: "node \<Rightarrow> node list" where
  "objects (Element a t as cs ts) =
     Element a t as cs ts # concat (map objects ts) @ concat (map objects cs)"
| "objects (Text a v) = [Text a v]"
| "objects (Other a v) = [Other a v]"

definition addrs :: "node \<Rightarrow> addr list" where
  "addrs n = map addr_of (objects n)"

text \<open>
  The structure of a subtree: the tree with the identities of its nodes forgotten. Only
  a template has contents.
\<close>

fun shape :: "node \<Rightarrow> node" where
  "shape (Element a t as cs ts) =
     Element 0 t as (map shape cs) (if is_template t then map shape ts else [])"
| "shape (Text a v) = Text 0 v"
| "shape (Other a v) = Other 0 v"

section \<open>The store\<close>

text \<open>
  The store of a page: the live tree under \<open>document.body\<close> (absent when the document
  has no body), the trees that are not attached to the document, and the next address
  the allocator hands out. A store is well formed when every address in use is below
  the allocator's next one.
\<close>

record world =
  body :: "node option"
  detached :: "node list"
  fresh :: addr

definition roots :: "world \<Rightarrow> node list" where
  "roots w = (case body w of None \<Rightarrow> [] | Some b \<Rightarrow> [b]) @ detached w"

definition wf_world :: "world \<Rightarrow> bool" where
  "wf_world w \<longleftrightarrow> list_all (\<lambda>n. list_all (\<lambda>a. a < fresh w) (addrs n)) (roots w)"

text \<open>Dereferencing: the node object that carries an address.\<close>

definition node_at :: "addr \<Rightarrow> world \<Rightarrow> node option" where
  "node_at a w = find (\<lambda>n. addr_of n = a) (concat (map objects (roots w)))"

text \<open>
  \<open>cloneNode(true)\<close>: a deep copy whose nodes are new objects, allocated from the given
  address on; the second component is the next free address. The copy of an element has
  the element's namespace, prefix, local name, \<open>is\<close> value and attributes; the copy of a
  template gets a deep copy of the template contents, and then the children are copied.
\<close>

fun cloneNode :: "addr \<Rightarrow> node \<Rightarrow> node \<times> addr"
  and cloneNodes :: "addr \<Rightarrow> node list \<Rightarrow> node list \<times> addr" where
  "cloneNode k (Element a t as cs ts) =
     (case (if is_template t then cloneNodes (Suc k) ts else ([], Suc k)) of
        (ts', k') \<Rightarrow>
          (case cloneNodes k' cs of (cs', k'') \<Rightarrow> (Element k t as cs' ts', k'')))"
| "cloneNode k (Text a v) = (Text k v, Suc k)"
| "cloneNode k (Other a v) = (Other k v, Suc k)"
| "cloneNodes k [] = ([], k)"
| "cloneNodes k (c # cs) =
     (case cloneNode k c of (c', k') \<Rightarrow>
        (case cloneNodes k' cs of (cs', k'') \<Rightarrow> (c' # cs', k'')))"

definition cloneNode_deep :: "world \<Rightarrow> node \<Rightarrow> addr \<times> world" where
  "cloneNode_deep w n =
     (case cloneNode (fresh w) n of
        (c, k) \<Rightarrow> (addr_of c, w\<lparr>detached := detached w @ [c], fresh := k\<rparr>))"

text \<open>
  \<open>root.querySelectorAll(tag)\<close> with a type selector in lower case and without a
  namespace: the descendants of the root (not the root itself) that are elements with
  that local name, in any namespace, in document order, as a static list of references.
\<close>

definition selects :: "jsstring \<Rightarrow> node \<Rightarrow> bool" where
  "selects name n = (case n of Element a t as cs ts \<Rightarrow> tag_local t = name | _ \<Rightarrow> False)"

definition querySelectorAll :: "world \<Rightarrow> addr \<Rightarrow> jsstring \<Rightarrow> addr list" where
  "querySelectorAll w r name =
     (case node_at r w of
        None \<Rightarrow> []
      | Some n \<Rightarrow> map addr_of (filter (selects name) (descendants n)))"

text \<open>
  \<open>el.remove()\<close>: the node is taken out of the child list of its parent, wherever in the
  store that parent is (an element, or the fragment of a template's contents), and its
  subtree stays in the store as a detached tree. A node without a parent is left alone.
\<close>

fun detach :: "addr \<Rightarrow> node \<Rightarrow> node" where
  "detach a (Element b t as cs ts) =
     Element b t as (map (detach a) (filter (\<lambda>c. addr_of c \<noteq> a) cs))
                    (map (detach a) (filter (\<lambda>c. addr_of c \<noteq> a) ts))"
| "detach a (Text b v) = Text b v"
| "detach a (Other b v) = Other b v"

fun cut_out :: "addr \<Rightarrow> node \<Rightarrow> node list" where
  "cut_out a (Element b t as cs ts) =
     concat (map (\<lambda>c. if addr_of c = a then [c] else cut_out a c) ts) @
     concat (map (\<lambda>c. if addr_of c = a then [c] else cut_out a c) cs)"
| "cut_out a (Text b v) = []"
| "cut_out a (Other b v) = []"

definition remove :: "addr \<Rightarrow> world \<Rightarrow> world" where
  "remove a w =
     w\<lparr>body := map_option (detach a) (body w),
       detached := map (detach a) (detached w) @ concat (map (cut_out a) (roots w))\<rparr>"


section \<open>simplifyDOM\<close>

definition tagsToRemove :: "jsstring list" where
  "tagsToRemove = map lit [''script'', ''style'', ''noscript'', ''iframe'', ''svg'',
     ''link'', ''meta'']"

definition allowedAttributes :: "jsstring list" where
  "allowedAttributes = map lit [''id'', ''class'', ''name'', ''placeholder'',
     ''aria-label'', ''role'', ''type'', ''href'', ''title'', ''alt'']"

text \<open>
  Step 2 of \<open>simplifyDOM\<close>: for each tag in turn, query the clone and remove every
  match. The list of matches is computed before the first removal.
\<close>

definition remove_tag :: "addr \<Rightarrow> jsstring \<Rightarrow> world \<Rightarrow> world" where
  "remove_tag r name w = fold remove (querySelectorAll w r name) w"

definition remove_tags :: "addr \<Rightarrow> world \<Rightarrow> world" where
  "remove_tags r w = fold (remove_tag r) tagsToRemove w"

text \<open>
  \<open>el.removeAttribute(qualifiedName)\<close>: on an element in the HTML namespace the argument
  is first put in ASCII lower case; then the first attribute of the list whose qualified
  name is the argument is removed, if there is one. The loop of \<open>cleanElement\<close> runs
  over a snapshot of the attribute list (\<open>Array.from\<close>), tests \<open>attr.name\<close> against the
  allow-list as it is written, and updates the element's own list.
\<close>

fun remove_first :: "jsstring \<Rightarrow> attribute list \<Rightarrow> attribute list" where
  "remove_first k [] = []"
| "remove_first k (at # as) = (if attr_name at = k then as else at # remove_first k as)"

definition removeAttribute :: "tag \<Rightarrow> jsstring \<Rightarrow> attribute list \<Rightarrow> attribute list" where
  "removeAttribute t qualifiedName as =
     remove_first (if tag_ns t = Some HTML then ascii_lower qualifiedName else qualifiedName) as"

definition clean_attributes :: "tag \<Rightarrow> attribute list \<Rightarrow> attribute list" where
  "clean_attributes t as =
     fold (\<lambda>attr cur. if attr_name attr \<in> set allowedAttributes then cur
                       else removeAttribute t (attr_name attr) cur) as as"

text \<open>
  \<open>cleanElement(el)\<close> rewrites the subtree of \<open>el\<close> in place and touches no node outside
  it. The loop over the children reads the next sibling before it removes the current
  child, so it visits every child of the original list once, in order: an element is
  cleaned recursively, a text node is removed when its trimmed data is empty, any other
  node is removed. The walk follows \<open>firstChild\<close> and \<open>nextSibling\<close>; template contents
  are not on it.
\<close>

fun cleanElement :: "node \<Rightarrow> node"
  and clean_children :: "node list \<Rightarrow> node list" where
  "cleanElement (Element a t as cs ts) =
     Element a t (clean_attributes t as) (clean_children cs) ts"
| "cleanElement (Text a v) = Text a v"
| "cleanElement (Other a v) = Other a v"
| "clean_children [] = []"
| "clean_children (Element a t as cs ts # rest) =
     cleanElement (Element a t as cs ts) # clean_children rest"
| "clean_children (Text a v # rest) =
     (if trim v = [] then clean_children rest else Text a v # clean_children rest)"
| "clean_children (Other a v # rest) = clean_children rest"

text \<open>A mutation of the node behind a reference: the subtree at that address is replaced.\<close>

fun update_at :: "addr \<Rightarrow> (node \<Rightarrow> node) \<Rightarrow> node \<Rightarrow> node" where
  "update_at a f (Element b t as cs ts) =
     (if b = a then f (Element b t as cs ts)
      else Element b t as (map (update_at a f) cs) (map (update_at a f) ts))"
| "update_at a f (Text b v) = (if b = a then f (Text b v) else Text b v)"
| "update_at a f (Other b v) = (if b = a then f (Other b v) else Other b v)"

definition mutate :: "addr \<Rightarrow> (node \<Rightarrow> node) \<Rightarrow> world \<Rightarrow> world" where
  "mutate a f w =
     w\<lparr>body := map_option (update_at a f) (body w),
       detached := map (update_at a f) (detached w)\<rparr>"

text \<open>
  \<open>el.innerHTML\<close>: the HTML fragment serialisation. An element is written as its start
  tag, then, unless it serialises as void, its content and its end tag. The tag name is
  the local name for an element in the HTML, SVG or MathML namespace and the qualified
  name otherwise. The start tag holds the \<open>is\<close> value, when the element has one and no
  \<open>is\<close> attribute, and the attributes in order, each under its serialised name. The
  content of a template is its template contents, that of any other element its
  children. Text is escaped unless its parent is a raw text element of HTML, or a
  \<open>noscript\<close> element of HTML in a document where scripting is enabled: that is so for
  the page's document, to which the clone belongs, and not for the inert document that
  holds template contents. A comment is written between its delimiters. Shadow trees are
  not written, and are left out of the model.
\<close>

definition voidTags :: "jsstring list" where
  "voidTags = map lit [''area'', ''base'', ''basefont'', ''bgsound'', ''br'', ''col'',
     ''embed'', ''frame'', ''hr'', ''img'', ''input'', ''keygen'', ''link'', ''meta'',
     ''param'', ''source'', ''track'', ''wbr'']"

definition rawTextTags :: "jsstring list" where
  "rawTextTags = map lit [''style'', ''script'', ''xmp'', ''iframe'', ''noembed'',
     ''noframes'', ''plaintext'']"

definition serializes_as_void :: "tag \<Rightarrow> bool" where
  "serializes_as_void t \<longleftrightarrow> tag_ns t = Some HTML \<and> tag_local t \<in> set voidTags"

definition raw_text :: "bool \<Rightarrow> tag \<Rightarrow> bool" where
  "raw_text scripting t \<longleftrightarrow>
     tag_ns t = Some HTML \<and>
     (tag_local t \<in> set rawTextTags \<or> (scripting \<and> tag_local t = lit ''noscript''))"

definition tagname :: "tag \<Rightarrow> jsstring" where
  "tagname t =
     (if tag_ns t \<in> {Some HTML, Some SVG, Some MathML} then tag_local t
      else qname (tag_prefix t) (tag_local t))"

fun escape :: "bool \<Rightarrow> jsstring \<Rightarrow> jsstring" where
  "escape attr [] = []"
| "escape attr (u # us) =
     (if u = 0x26 then lit ''&amp;''
      else if u = 0xA0 then lit ''&nbsp;''
      else if attr \<and> u = 0x22 then lit ''&quot;''
      else if \<not> attr \<and> u = 0x3C then lit ''&lt;''
      else if \<not> attr \<and> u = 0x3E then lit ''&gt;''
      else [u]) @ escape attr us"

definition serialized_name :: "attribute \<Rightarrow> jsstring" where
  "serialized_name at =
     (case attr_ns at of
        None \<Rightarrow> attr_local at
      | Some XML \<Rightarrow> lit ''xml:'' @ attr_local at
      | Some XMLNS \<Rightarrow>
          (if attr_local at = lit ''xmlns'' then lit ''xmlns'' else lit ''xmlns:'' @ attr_local at)
      | Some XLink \<Rightarrow> lit ''xlink:'' @ attr_local at
      | Some other \<Rightarrow> attr_name at)"

definition serialize_attribute :: "attribute \<Rightarrow> jsstring" where
  "serialize_attribute at =
     lit '' '' @ serialized_name at @ [0x3D, 0x22] @ escape True (attr_value at) @ [0x22]"

definition serialize_is :: "tag \<Rightarrow> attribute list \<Rightarrow> jsstring" where
  "serialize_is t as =
     (case tag_is t of
        None \<Rightarrow> []
      | Some v \<Rightarrow>
          (if list_ex (\<lambda>at. attr_ns at = None \<and> attr_local at = lit ''is'') as then []
           else lit '' is='' @ [0x22] @ escape True v @ [0x22]))"

text \<open>
  The first argument of \<open>serialize\<close> says whether scripting is enabled for the node, the
  second whether its parent makes text raw.
\<close>

fun serialize :: "bool \<Rightarrow> bool \<Rightarrow> node \<Rightarrow> jsstring" where
  "serialize scripting raw (Element a t as cs ts) =
     lit ''<'' @ tagname t @ serialize_is t as @ concat (map serialize_attribute as) @
     lit ''>'' @
     (if serializes_as_void t then []
      else (if is_template t then concat (map (serialize False False) ts)
            else concat (map (serialize scripting (raw_text scripting t)) cs)) @
           lit ''</'' @ tagname t @ lit ''>'')"
| "serialize scripting raw (Text a v) = (if raw then v else escape False v)"
| "serialize scripting raw (Other a v) = lit ''<!--'' @ v @ lit ''-->''"

fun innerHTML_of :: "node \<Rightarrow> jsstring" where
  "innerHTML_of (Element a t as cs ts) =
     (if serializes_as_void t then []
      else if is_template t then concat (map (serialize False False) ts)
      else concat (map (serialize True (raw_text True t)) cs))"
| "innerHTML_of (Text a v) = []"
| "innerHTML_of (Other a v) = []"

definition innerHTML :: "addr \<Rightarrow> world \<Rightarrow> jsstring" where
  "innerHTML r w = (case node_at r w of None \<Rightarrow> [] | Some n \<Rightarrow> innerHTML_of n)"

text \<open>
  The nodes the serialisation of an element's content writes, in the order in which it
  writes them.
\<close>

fun written :: "node \<Rightarrow> node list" where
  "written (Element a t as cs ts) =
     (if serializes_as_void t then []
      else if is_template t then concat (map (\<lambda>c. c # written c) ts)
      else concat (map (\<lambda>c. c # written c) cs))"
| "written (Text a v) = []"
| "written (Other a v) = []"


text \<open>
  \<open>simplifyDOM\<close> runs in the page. \<open>reduction\<close> is its first three steps (clone the body,
  remove the unwanted tags from the clone, clean the clone) and yields the reference to
  the clone; \<open>simplifyDOM\<close> then returns the clone's inner markup. Reading
  \<open>document.body\<close> of a document without a body gives \<open>null\<close>, and the call of
  \<open>cloneNode\<close> on it throws a TypeError. Both functions also return the store they leave.
\<close>

datatype js_error = TypeError | Thrown jsstring

definition reduction :: "world \<Rightarrow> (js_error + addr) \<times> world" where
  "reduction w =
     (case body w of
        None \<Rightarrow> (Inl TypeError, w)
      | Some b \<Rightarrow>
          (case cloneNode_deep w b of
             (clone, w1) \<Rightarrow> (Inr clone, mutate clone cleanElement (remove_tags clone w1))))"

definition simplifyDOM :: "world \<Rightarrow> (js_error + jsstring) \<times> world" where
  "simplifyDOM w =
     (case reduction w of
        (Inl e, w') \<Rightarrow> (Inl e, w')
      | (Inr clone, w') \<Rightarrow> (Inr (innerHTML clone w'), w'))"

text \<open>The reduced tree: the clone as \<open>reduction\<close> leaves it in the store.\<close>

definition reduced :: "world \<Rightarrow> node option" where
  "reduced w =
     (case reduction w of
        (Inl e, w') \<Rightarrow> None
      | (Inr clone, w') \<Rightarrow> node_at clone w')"

section \<open>getElementSelector\<close>

text \<open>
  The collaborators of the pipeline are parameters of the model: starting the browser
  and opening a page (\<open>None\<close> when it succeeds), the navigation (it yields the store of
  the loaded page), the language model (the content of its first choice for a prompt)
  and the locator engine (the elements of the live tree that a selector matches, in
  document order). Each of them may throw instead.
\<close>

record host =
  launch :: "js_error option"
  goto :: "jsstring \<Rightarrow> js_error + world"
  complete :: "jsstring \<Rightarrow> js_error + jsstring"
  locate :: "node option \<Rightarrow> jsstring \<Rightarrow> js_error + addr list"

text \<open>What a run does that can be observed from outside, in order.\<close>

datatype message =
    Starting jsstring
  | Extracting
  | Calling
  | Returned jsstring
  | Verified nat

datatype event =
    ConsoleLog message
  | ConsoleWarn jsstring
  | ConsoleError js_error
  | Navigate jsstring
  | Wait nat
  | Request jsstring
  | Query jsstring
  | Highlight addr
  | Close

definition truncatedHTML :: "jsstring \<Rightarrow> jsstring" where
  "truncatedHTML simplifiedHTML = slice simplifiedHTML 0 15000"

definition line :: "jsstring \<Rightarrow> jsstring" where
  "line s = [0xA] @ lit ''        '' @ s"

definition prompt :: "jsstring \<Rightarrow> jsstring \<Rightarrow> jsstring" where
  "prompt description html =
     line (lit ''You are a QA automation expert. I will provide you with a simplified HTML snippet of a webpage.'') @
     line [] @
     line (lit ''Your task is to find the CSS Selector for the element described as: '' @
           [0x22] @ description @ [0x22] @ lit ''.'') @
     line [] @
     line (lit ''Rules:'') @
     line (lit ''1. Return ONLY the CSS selector string. No markdown, no explanations.'') @
     line (lit ''2. Prefer '' @ [0x27] @ lit ''id'' @ [0x27] @
           lit '' if available, otherwise use a unique combination of classes or attributes.'') @
     line (lit ''3. Make the selector robust.'') @
     line [] @
     line (lit ''HTML Snippet:'') @
     line html @
     line []"

text \<open>
  Step 4: count the matches of the selector in the live tree; highlight the first one
  when there is any, warn otherwise. A selector the engine cannot parse makes the count
  throw. The locator of the highlight is the same selector on the same live tree, so
  \<open>first()\<close> is the first of the matches that were counted.
\<close>

definition verify :: "host \<Rightarrow> world \<Rightarrow> jsstring \<Rightarrow> (js_error + unit) \<times> event list" where
  "verify h w selector =
     (case locate h (body w) selector of
        Inl e \<Rightarrow> (Inl e, [Query selector])
      | Inr matches \<Rightarrow>
          (let count = length matches in
           if count > 0
           then (Inr (), [Query selector, ConsoleLog (Verified count)] @
                         map Highlight (take 1 matches) @ [Wait 3000])
           else (Inr (), [Query selector, ConsoleWarn selector])))"

text \<open>The body of the \<open>try\<close> block: its result or the error thrown, and the events so far.\<close>

definition try_block :: "host \<Rightarrow> jsstring \<Rightarrow> jsstring \<Rightarrow> (js_error + jsstring) \<times> event list" where
  "try_block h url description =
     (case goto h url of
        Inl e \<Rightarrow> (Inl e, [Navigate url])
      | Inr w \<Rightarrow>
          (case simplifyDOM w of
             (Inl e, w') \<Rightarrow> (Inl e, [Navigate url, Wait 2000, ConsoleLog Extracting])
           | (Inr simplifiedHTML, w') \<Rightarrow>
               (let request = prompt description (truncatedHTML simplifiedHTML);
                    evs = [Navigate url, Wait 2000, ConsoleLog Extracting,
                           ConsoleLog Calling, Request request]
                in case complete h request of
                     Inl e \<Rightarrow> (Inl e, evs)
                   | Inr content \<Rightarrow>
                       (let selector = trim content
                        in case verify h w' selector of
                             (Inl e, evs') \<Rightarrow>
                               (Inl e, evs @ [ConsoleLog (Returned selector)] @ evs')
                           | (Inr u, evs') \<Rightarrow>
                               (Inr selector, evs @ [ConsoleLog (Returned selector)] @ evs')))))"

text \<open>
  The whole function. The browser is started before the \<open>try\<close>, so a failure there
  reaches the caller. An error thrown inside the \<open>try\<close> is caught and written to the
  error console, and the function then returns \<open>undefined\<close> (\<open>None\<close>); the \<open>finally\<close>
  block closes the browser on both paths.
\<close>

definition getElementSelector ::
    "host \<Rightarrow> jsstring \<Rightarrow> jsstring \<Rightarrow> (js_error + jsstring option) \<times> event list" where
  "getElementSelector h url description =
     (case launch h of
        Some e \<Rightarrow> (Inl e, [ConsoleLog (Starting url)])
      | None \<Rightarrow>
          (case try_block h url description of
             (Inr selector, evs) \<Rightarrow>
               (Inr (Some selector), [ConsoleLog (Starting url)] @ evs @ [Close])
           | (Inl e, evs) \<Rightarrow>
               (Inr None, [ConsoleLog (Starting url)] @ evs @ [ConsoleError e, Close])))"


section \<open>Notions for the properties\<close>

text \<open>An element whose tag is in the exclusion list.\<close>

definition excluded :: "node \<Rightarrow> bool" where
  "excluded n =
     (case n of Element a t as cs ts \<Rightarrow> tag_local t \<in> set tagsToRemove | _ \<Rightarrow> False)"

text \<open>A node the pruning loop removes: any node that is neither an element nor a text
  node, and a text node whose trimmed data is empty.\<close>

fun stray :: "node \<Rightarrow> bool" where
  "stray (Element a t as cs ts) = False"
| "stray (Text a v) = (trim v = [])"
| "stray (Other a v) = True"

text \<open>An attribute whose name, as the loop of \<open>cleanElement\<close> reads it, is not allowed.\<close>

definition disallowed :: "attribute \<Rightarrow> bool" where
  "disallowed at \<longleftrightarrow> attr_name at \<notin> set allowedAttributes"

text \<open>\<open>document.body\<close> is a \<open>body\<close> or a \<open>frameset\<close> element of HTML.\<close>

definition bodyTags :: "jsstring list" where
  "bodyTags = map lit [''body'', ''frameset'']"

definition is_body :: "tag \<Rightarrow> bool" where
  "is_body t \<longleftrightarrow> tag_ns t = Some HTML \<and> tag_local t \<in> set bodyTags"

text \<open>
  Removal by a predicate, as a function on trees: every descendant that satisfies the
  predicate goes, with its subtree; template contents stay as they are. The reduction on
  a tree: remove the excluded descendants, then clean.
\<close>

fun prune :: "(node \<Rightarrow> bool) \<Rightarrow> node \<Rightarrow> node" where
  "prune P (Element a t as cs ts) =
     Element a t as (map (prune P) (filter (\<lambda>c. \<not> P c) cs)) ts"
| "prune P (Text a v) = Text a v"
| "prune P (Other a v) = Other a v"

definition reduce_tree :: "node \<Rightarrow> node" where
  "reduce_tree n = cleanElement (prune excluded n)"

text \<open>The node objects of a subtree that lie inside template contents.\<close>

fun concealed :: "node \<Rightarrow> node list" where
  "concealed (Element a t as cs ts) = concat (map objects ts) @ concat (map concealed cs)"
| "concealed (Text a v) = []"
| "concealed (Other a v) = []"

text \<open>
  A tree of new objects: its root has the given address, no address occurs twice and
  none is below the root's.
\<close>

definition fresh_tree :: "addr \<Rightarrow> node \<Rightarrow> bool" where
  "fresh_tree k n \<longleftrightarrow> addr_of n = k \<and> distinct (addrs n) \<and> (\<forall>a\<in>set (addrs n). k \<le> a)"

text \<open>
  The stores of a run that started in \<open>u\<close>: the live tree and the trees detached before
  the run are as in \<open>u\<close>, the clone follows them, and what the run has detached from the
  clone comes last.
\<close>

definition old_addrs :: "world \<Rightarrow> addr \<Rightarrow> bool" where
  "old_addrs u k \<longleftrightarrow> (\<forall>n\<in>set (roots u). \<forall>a\<in>set (addrs n). a < k)"

definition clone_state :: "world \<Rightarrow> node \<Rightarrow> world \<Rightarrow> bool" where
  "clone_state u cl w \<longleftrightarrow>
     body w = body u \<and> take (Suc (length (detached u))) (detached w) = detached u @ [cl]"


section \<open>Example pages and hosts\<close>

text \<open>
  A page with a script, a styled paragraph, a comment, a span holding only blanks and
  nested \<open>svg\<close> elements; its clone; the clone as the reduction leaves it; the markup of
  that tree; and a page with the same children under a \<open>frameset\<close> root.
\<close>

definition page_children :: "node list" where
  "page_children =
     [Element 1 (html_el ''div'') []
        [Element 2 (html_el ''script'') [] [Text 3 (lit ''x=1'')] [],
         Element 4 (html_el ''p'') [plain ''class'' ''a'', plain ''style'' ''color:red'']
           [Text 5 (lit ''Hi'')] [],
         Other 6 (lit ''c''),
         Element 7 (html_el ''span'') [] [Text 8 (lit ''   '')] [],
         Element 9 (Tag (Some SVG) None (lit ''svg'') None) []
           [Element 10 (Tag (Some SVG) None (lit ''svg'') None) [] [] [],
            Element 11 (Tag (Some SVG) None (lit ''style'') None) [] [] []] []] []]"

definition page_body :: node where
  "page_body =
     Element 0 (html_el ''body'') [plain ''class'' ''x'', plain ''style'' ''c'']
       page_children []"

definition page :: world where
  "page = \<lparr>body = Some page_body, detached = [], fresh = 12\<rparr>"

definition page_clone :: node where
  "page_clone =
     Element 12 (html_el ''body'') [plain ''class'' ''x'', plain ''style'' ''c'']
       [Element 13 (html_el ''div'') []
          [Element 14 (html_el ''script'') [] [Text 15 (lit ''x=1'')] [],
           Element 16 (html_el ''p'') [plain ''class'' ''a'', plain ''style'' ''color:red'']
             [Text 17 (lit ''Hi'')] [],
           Other 18 (lit ''c''),
           Element 19 (html_el ''span'') [] [Text 20 (lit ''   '')] [],
           Element 21 (Tag (Some SVG) None (lit ''svg'') None) []
             [Element 22 (Tag (Some SVG) None (lit ''svg'') None) [] [] [],
              Element 23 (Tag (Some SVG) None (lit ''style'') None) [] [] []] []] []] []"

definition page_reduced :: node where
  "page_reduced =
     Element 12 (html_el ''body'') [plain ''class'' ''x'']
       [Element 13 (html_el ''div'') []
          [Element 16 (html_el ''p'') [plain ''class'' ''a''] [Text 17 (lit ''Hi'')] [],
           Element 19 (html_el ''span'') [] [] []] []] []"

definition page_html :: jsstring where
  "page_html = lit ''<div><p class='' @ [0x22] @ lit ''a'' @ [0x22] @
     lit ''>Hi</p><span></span></div>''"

definition page_frames :: world where
  "page_frames =
     \<lparr>body = Some (Element 40 (html_el ''frameset'') [plain ''id'' ''f''] page_children []),
      detached = [], fresh = 41\<rparr>"

text \<open>Two pages whose bodies have the same children, all of which a reduction removes.\<close>

definition removable :: "node list" where
  "removable =
     [Element 1 (html_el ''script'') [] [Text 2 (lit ''x=1'')] [], Text 3 (lit ''  ''),
      Other 4 (lit ''c'')]"

definition blank_page :: world where
  "blank_page =
     \<lparr>body = Some (Element 0 (html_el ''body'') [plain ''class'' ''x''] removable []),
      detached = [], fresh = 5\<rparr>"

definition blank_frames :: world where
  "blank_frames =
     \<lparr>body = Some (Element 7 (html_el ''frameset'') [] removable []),
      detached = [], fresh = 9\<rparr>"

text \<open>
  A store that is not well formed: the allocator's next address is already in use, so
  the nodes of a clone get the addresses of live nodes.
\<close>

definition aliased_page :: world where
  "aliased_page =
     \<lparr>body = Some (Element 0 (html_el ''body'') [] [Element 1 (html_el ''script'') [] [] []] []),
      detached = [], fresh = 0\<rparr>"

text \<open>
  The page that the parser makes of
  \<^verbatim>\<open><body><template><script>x=1</script><p style="c">t</p><!--c-->  </template><p>k</p></body>\<close>:
  what stands between the template's tags becomes the template contents, and the
  template has no children. Then the reduced clone of that page and the markup that
  \<open>simplifyDOM\<close> returns for it.
\<close>

definition template_contents :: "node list" where
  "template_contents =
     [Element 2 (html_el ''script'') [] [Text 3 (lit ''x=1'')] [],
      Element 4 (html_el ''p'') [plain ''style'' ''c''] [Text 5 (lit ''t'')] [],
      Other 6 (lit ''c''),
      Text 7 (lit ''  '')]"

definition template_page :: world where
  "template_page =
     \<lparr>body = Some (Element 0 (html_el ''body'') []
                [Element 1 (html_el ''template'') [] [] template_contents,
                 Element 8 (html_el ''p'') [] [Text 9 (lit ''k'')] []] []),
      detached = [], fresh = 10\<rparr>"

definition template_reduced :: node where
  "template_reduced =
     Element 10 (html_el ''body'') []
       [Element 11 (html_el ''template'') [] []
          [Element 12 (html_el ''script'') [] [Text 13 (lit ''x=1'')] [],
           Element 14 (html_el ''p'') [plain ''style'' ''c''] [Text 15 (lit ''t'')] [],
           Other 16 (lit ''c''),
           Text 17 (lit ''  '')],
        Element 18 (html_el ''p'') [] [Text 19 (lit ''k'')] []] []"

definition template_html :: jsstring where
  "template_html = lit ''<template><script>x=1</script><p style='' @ [0x22] @ lit ''c'' @
     [0x22] @ lit ''>t</p><!--c-->  </template><p>k</p>''"

text \<open>
  A page whose \<open>div\<close> got the attribute \<open>Style\<close> from a script
  (\<open>div.setAttributeNS(null, "Style", "x")\<close>); its reduced clone and the markup returned.
\<close>

definition mixed_case_page :: world where
  "mixed_case_page =
     \<lparr>body = Some (Element 0 (html_el ''body'') []
                [Element 1 (html_el ''div'') [plain ''id'' ''d'', plain ''Style'' ''x''] [] []] []),
      detached = [], fresh = 2\<rparr>"

definition mixed_case_reduced :: node where
  "mixed_case_reduced =
     Element 2 (html_el ''body'') []
       [Element 3 (html_el ''div'') [plain ''id'' ''d'', plain ''Style'' ''x''] [] []] []"

definition mixed_case_html :: jsstring where
  "mixed_case_html = lit ''<div id='' @ [0x22] @ lit ''d'' @ [0x22] @ lit '' Style='' @
     [0x22] @ lit ''x'' @ [0x22] @ lit ''></div>''"

text \<open>
  A page whose paragraph has three attributes: \<open>class\<close> from the markup, a second
  attribute with the qualified name \<open>class\<close> in a namespace of its own
  (\<open>p.setAttributeNS("urn:x", "class", "c")\<close>) and \<open>Class\<close>
  (\<open>p.setAttributeNS(null, "Class", "b")\<close>). Then the reduced clone of that page, a page
  whose body is that reduced tree, and the reduced clone of the second page.
\<close>

definition twice_page :: world where
  "twice_page =
     \<lparr>body = Some (Element 0 (html_el ''body'') []
                [Element 1 (html_el ''p'')
                   [plain ''class'' ''a'',
                    Attr (Some (Foreign (lit ''urn:x''))) None (lit ''class'') (lit ''c''),
                    plain ''Class'' ''b''] [] []] []),
      detached = [], fresh = 2\<rparr>"

definition twice_reduced :: node where
  "twice_reduced =
     Element 2 (html_el ''body'') []
       [Element 3 (html_el ''p'')
          [Attr (Some (Foreign (lit ''urn:x''))) None (lit ''class'') (lit ''c''),
           plain ''Class'' ''b''] [] []] []"

definition twice_again :: world where
  "twice_again = \<lparr>body = Some twice_reduced, detached = [], fresh = 4\<rparr>"

definition twice_reduced_again :: node where
  "twice_reduced_again =
     Element 4 (html_el ''body'') [] [Element 5 (html_el ''p'') [plain ''Class'' ''b''] [] []] []"

text \<open>
  A host that loads the example page and whose model answers with a fixed content. Its
  locator engine rejects the selector \<open>p[\<close>, matches the body and the paragraph for
  \<open>[class]\<close> and nothing for any other selector.
\<close>

definition example_host :: "jsstring \<Rightarrow> host" where
  "example_host content =
     \<lparr>launch = None,
      goto = (\<lambda>url. Inr page),
      complete = (\<lambda>request. Inr content),
      locate = (\<lambda>live selector.
        if selector = lit ''p['' then Inl (Thrown (lit ''SyntaxError''))
        else if selector = lit ''[class]'' then Inr [0, 4]
        else Inr [])\<rparr>"


section \<open>Properties of the tree operations\<close>

lemma addr_of_prune [simp]: "addr_of (prune P n) = addr_of n"
  by (cases n) simp_all

lemma addrs_Element [simp]:
  "addrs (Element a t as cs ts) = a # concat (map addrs ts) @ concat (map addrs cs)"
  by (simp add: addrs_def [abs_def] map_concat comp_def)

lemma addrs_Text [simp]: "addrs (Text a v) = [a]"
  by (simp add: addrs_def)

lemma addrs_Other [simp]: "addrs (Other a v) = [a]"
  by (simp add: addrs_def)

lemma addr_of_in_addrs: "addr_of n \<in> set (addrs n)"
  by (cases n) simp_all

lemma nodes_self: "n \<in> set (nodes n)"
  by (cases n) simp_all

lemma objects_head: "objects n = n # tl (objects n)"
  by (cases n) simp_all

lemma descendants_Element [simp]: "descendants (Element a t as cs ts) = concat (map nodes cs)"
  by (simp add: descendants_def)

lemma nodes_descendants: "nodes n = n # descendants n"
  by (cases n) (simp_all add: descendants_def)

lemma nodes_objects: "d \<in> set (nodes n) \<Longrightarrow> d \<in> set (objects n)"
  by (induction n) auto

lemma descendants_addrs: "d \<in> set (descendants n) \<Longrightarrow> addr_of d \<in> set (addrs n)"
  using nodes_objects [of d n] by (simp add: addrs_def nodes_descendants)

lemma prune_cong_desc:
  "(\<And>d. d \<in> set (descendants n) \<Longrightarrow> P d = Q d) \<Longrightarrow> prune P n = prune Q n"
proof (induction n)
  case (Element a t as cs ts)
  have same: "\<And>c. c \<in> set cs \<Longrightarrow> P c = Q c"
  proof -
    fix c assume "c \<in> set cs"
    then have "c \<in> set (descendants (Element a t as cs ts))"
      using nodes_self [of c] by auto
    then show "P c = Q c" by (rule Element.prems)
  qed
  have "\<And>c. c \<in> set cs \<Longrightarrow> prune P c = prune Q c"
  proof -
    fix c assume c: "c \<in> set cs"
    show "prune P c = prune Q c"
    proof (rule Element.IH(1) [OF c])
      fix d assume "d \<in> set (descendants c)"
      then have "d \<in> set (nodes c)" by (simp add: nodes_descendants)
      with c show "P d = Q d" using Element.prems by auto
    qed
  qed
  moreover have "filter (\<lambda>c. \<not> P c) cs = filter (\<lambda>c. \<not> Q c) cs"
    using same by (auto intro: filter_cong)
  ultimately show ?case by (auto intro: map_cong)
qed simp_all

lemma prune_prune:
  "(\<And>c. Q (prune P c) = Q c) \<Longrightarrow> prune Q (prune P n) = prune (\<lambda>c. P c \<or> Q c) n"
  by (induction n) (simp_all add: filter_map comp_def)

lemma prune_none:
  "(\<And>d. d \<in> set (descendants n) \<Longrightarrow> \<not> P d) \<Longrightarrow> prune P n = n"
proof -
  assume h: "\<And>d. d \<in> set (descendants n) \<Longrightarrow> \<not> P d"
  have "prune P n = prune (\<lambda>c. False) n"
    by (rule prune_cong_desc) (simp add: h)
  also have "\<dots> = n" by (induction n) (simp_all add: map_idI)
  finally show ?thesis .
qed

lemma detach_absent: "a \<notin> set (addrs n) \<Longrightarrow> detach a n = n"
proof (induction n)
  case (Element b t as cs ts)
  have cs: "c \<in> set cs \<Longrightarrow> addr_of c \<noteq> a \<and> detach a c = c" for c
    using Element.prems Element.IH(1) [of c] addr_of_in_addrs [of c] by auto
  have ts: "c \<in> set ts \<Longrightarrow> addr_of c \<noteq> a \<and> detach a c = c" for c
    using Element.prems Element.IH(2) [of c] addr_of_in_addrs [of c] by auto
  have "filter (\<lambda>c. addr_of c \<noteq> a) cs = cs" "filter (\<lambda>c. addr_of c \<noteq> a) ts = ts"
    using cs ts by (simp_all add: filter_id_conv)
  moreover have "map (detach a) cs = cs" "map (detach a) ts = ts"
    using cs ts by (simp_all add: map_idI)
  ultimately show ?case by simp
qed simp_all

lemma detach_prune:
  "a \<notin> addr_of ` set (concealed n) \<Longrightarrow> detach a n = prune (\<lambda>c. addr_of c = a) n"
proof (induction n)
  case (Element b t as cs ts)
  have ts: "c \<in> set ts \<Longrightarrow> addr_of c \<noteq> a \<and> detach a c = c" for c
  proof -
    assume c: "c \<in> set ts"
    with Element.prems have "a \<notin> set (addrs c)" by (auto simp: addrs_def)
    with addr_of_in_addrs [of c] show ?thesis by (auto simp: detach_absent)
  qed
  have "filter (\<lambda>c. addr_of c \<noteq> a) ts = ts" using ts by (simp add: filter_id_conv)
  moreover have "map (detach a) ts = ts" using ts by (simp add: map_idI)
  moreover have "c \<in> set cs \<Longrightarrow> detach a c = prune (\<lambda>c. addr_of c = a) c" for c
    using Element.prems by (intro Element.IH(1)) auto
  ultimately show ?case by simp
qed simp_all

lemma concealed_prune: "set (concealed (prune P n)) \<subseteq> set (concealed n)"
proof (induction n)
  case (Element a t as cs ts)
  have "set (concat (map concealed (map (prune P) (filter (\<lambda>c. \<not> P c) cs))))
        \<subseteq> set (concat (map concealed cs))"
    using Element.IH(1) by fastforce
  then show ?case by auto
qed simp_all

lemma fold_detach:
  "(\<And>x. x \<in> set xs \<Longrightarrow> x \<notin> addr_of ` set (concealed n)) \<Longrightarrow>
     fold detach xs n = prune (\<lambda>c. addr_of c \<in> set xs) n"
proof (induction xs arbitrary: n)
  case Nil
  show ?case by (simp add: prune_none)
next
  case (Cons a xs)
  have d: "detach a n = prune (\<lambda>c. addr_of c = a) n"
    by (rule detach_prune) (simp add: Cons.prems)
  have "fold detach xs (prune (\<lambda>c. addr_of c = a) n)
        = prune (\<lambda>c. addr_of c \<in> set xs) (prune (\<lambda>c. addr_of c = a) n)"
  proof (rule Cons.IH)
    fix x assume "x \<in> set xs"
    then have "x \<notin> addr_of ` set (concealed n)" by (simp add: Cons.prems)
    with concealed_prune [of "\<lambda>c. addr_of c = a" n]
    show "x \<notin> addr_of ` set (concealed (prune (\<lambda>c. addr_of c = a) n))" by blast
  qed
  also have "\<dots> = prune (\<lambda>c. addr_of c = a \<or> addr_of c \<in> set xs) n"
    by (rule prune_prune) simp
  finally show ?case by (simp add: d disj_commute eq_commute [of a])
qed

lemma mset_concat_split:
  "(\<And>c. c \<in> set cs \<Longrightarrow> mset (f c) = mset (g c) + mset (h c)) \<Longrightarrow>
     mset (concat (map f cs)) = mset (concat (map g cs)) + mset (concat (map h cs))"
  by (induction cs) (simp_all add: ac_simps)

lemma mset_objects: "mset (objects n) = mset (nodes n) + mset (concealed n)"
proof (induction n)
  case (Element a t as cs ts)
  have "mset (concat (map objects cs))
        = mset (concat (map nodes cs)) + mset (concat (map concealed cs))"
    by (rule mset_concat_split) (rule Element.IH(1))
  then show ?case by (simp add: ac_simps)
qed simp_all

lemma distinct_nodes_concealed:
  assumes "distinct (addrs n)"
  shows "distinct (map addr_of (nodes n) @ map addr_of (concealed n))"
proof -
  have "mset (map addr_of (objects n)) = mset (map addr_of (nodes n) @ map addr_of (concealed n))"
  proof -
    have "image_mset addr_of (mset (objects n))
          = image_mset addr_of (mset (nodes n) + mset (concealed n))"
      by (simp only: mset_objects)
    then show ?thesis by simp
  qed
  from mset_eq_imp_distinct_iff [OF this] assms show ?thesis by (simp add: addrs_def)
qed

lemma prune_selected:
  assumes "distinct (addrs n)"
  shows "prune (\<lambda>c. addr_of c \<in> set (map addr_of (filter (selects name) (descendants n)))) n
         = prune (selects name) n"
proof (rule prune_cong_desc)
  fix d assume d: "d \<in> set (descendants n)"
  from distinct_nodes_concealed [OF assms] have inj: "inj_on addr_of (set (nodes n))"
    by (simp add: distinct_map)
  show "(addr_of d \<in> set (map addr_of (filter (selects name) (descendants n)))) = selects name d"
  proof
    assume "addr_of d \<in> set (map addr_of (filter (selects name) (descendants n)))"
    then obtain e where e: "e \<in> set (descendants n)" "selects name e" "addr_of e = addr_of d"
      by auto
    from d e(1) have "d \<in> set (nodes n)" "e \<in> set (nodes n)"
      by (simp_all add: nodes_descendants)
    with inj e(3) have "e = d" by (auto dest: inj_onD)
    with e(2) show "selects name d" by simp
  next
    assume "selects name d"
    with d show "addr_of d \<in> set (map addr_of (filter (selects name) (descendants n)))"
      by auto
  qed
qed

lemma fold_detach_selected:
  assumes "distinct (addrs n)"
  shows "fold detach (map addr_of (filter (selects name) (descendants n))) n
         = prune (selects name) n"
proof -
  let ?xs = "map addr_of (filter (selects name) (descendants n))"
  have "fold detach ?xs n = prune (\<lambda>c. addr_of c \<in> set ?xs) n"
  proof (rule fold_detach)
    fix x assume "x \<in> set ?xs"
    then have "x \<in> set (map addr_of (nodes n))" by (auto simp: nodes_descendants)
    with distinct_nodes_concealed [OF assms]
    show "x \<notin> addr_of ` set (concealed n)" by auto
  qed
  with prune_selected [OF assms] show ?thesis by simp
qed

lemma prune_addrs:
  "distinct (addrs n) \<Longrightarrow>
     distinct (addrs (prune P n)) \<and> set (addrs (prune P n)) \<subseteq> set (addrs n)"
proof (induction n)
  case (Element a t as cs ts)
  have step: "distinct (concat (map addrs cs)) \<Longrightarrow>
      (\<And>c. c \<in> set cs \<Longrightarrow> distinct (addrs c) \<Longrightarrow>
         distinct (addrs (prune P c)) \<and> set (addrs (prune P c)) \<subseteq> set (addrs c)) \<Longrightarrow>
      distinct (concat (map addrs (map (prune P) (filter (\<lambda>c. \<not> P c) cs)))) \<and>
      set (concat (map addrs (map (prune P) (filter (\<lambda>c. \<not> P c) cs))))
        \<subseteq> set (concat (map addrs cs))" for cs
  proof (induction cs)
    case Nil
    show ?case by simp
  next
    case (Cons c cs)
    from Cons.prems(1) have dc: "distinct (addrs c)" and dr: "distinct (concat (map addrs cs))"
      and dj: "set (addrs c) \<inter> set (concat (map addrs cs)) = {}"
      by simp_all
    have rest: "distinct (concat (map addrs (map (prune P) (filter (\<lambda>c. \<not> P c) cs)))) \<and>
      set (concat (map addrs (map (prune P) (filter (\<lambda>c. \<not> P c) cs))))
        \<subseteq> set (concat (map addrs cs))"
      by (rule Cons.IH [OF dr]) (simp add: Cons.prems(2))
    have hd: "distinct (addrs (prune P c)) \<and> set (addrs (prune P c)) \<subseteq> set (addrs c)"
      by (rule Cons.prems(2)) (simp_all add: dc)
    show ?case
    proof (cases "P c")
      case True
      with rest show ?thesis by auto
    next
      case False
      have "set (addrs (prune P c)) \<inter>
            set (concat (map addrs (map (prune P) (filter (\<lambda>c. \<not> P c) cs)))) = {}"
        using hd rest dj by blast
      with False hd rest show ?thesis by auto
    qed
  qed
  from Element.prems have d: "distinct (concat (map addrs cs))"
    and t: "distinct (concat (map addrs ts))"
    and a: "a \<notin> set (concat (map addrs cs))" "a \<notin> set (concat (map addrs ts))"
    and dj: "set (concat (map addrs ts)) \<inter> set (concat (map addrs cs)) = {}"
    by simp_all
  have k: "distinct (concat (map addrs (map (prune P) (filter (\<lambda>c. \<not> P c) cs)))) \<and>
      set (concat (map addrs (map (prune P) (filter (\<lambda>c. \<not> P c) cs))))
        \<subseteq> set (concat (map addrs cs))"
    by (rule step [OF d]) (rule Element.IH(1))
  have "set (concat (map addrs ts)) \<inter>
        set (concat (map addrs (map (prune P) (filter (\<lambda>c. \<not> P c) cs)))) = {}"
    using k dj by blast
  with k t a show ?case by auto
qed simp_all

lemma cloneNode_addrs_shape:
  "cloneNode k n = (c, k') \<Longrightarrow> addrs c = [k..<k'] \<and> k < k' \<and> shape c = shape n"
  "cloneNodes k ns = (cs, k') \<Longrightarrow>
     concat (map addrs cs) = [k..<k'] \<and> k \<le> k' \<and> map shape cs = map shape ns"
proof (induction k n and k ns arbitrary: c k' and cs k' rule: cloneNode_cloneNodes.induct)
  case (1 k a t as cs ts)
  obtain ts' i where r1: "(if is_template t then cloneNodes (Suc k) ts else ([], Suc k)) = (ts', i)"
    by (cases "if is_template t then cloneNodes (Suc k) ts else ([], Suc k)")
  obtain cs' j where r2: "cloneNodes i cs = (cs', j)" by (cases "cloneNodes i cs")
  have ih1: "concat (map addrs ts') = [Suc k..<i] \<and> Suc k \<le> i \<and>
             (if is_template t then map shape ts' = map shape ts else ts' = [])"
  proof (cases "is_template t")
    case True
    with r1 have "cloneNodes (Suc k) ts = (ts', i)" by simp
    from "1.IH"(1) [OF True this] True show ?thesis by simp
  next
    case False
    with r1 show ?thesis by simp
  qed
  from "1.IH"(2) [OF r1 [symmetric] r2]
  have ih2: "concat (map addrs cs') = [i..<j]" "i \<le> j" "map shape cs' = map shape cs"
    by simp_all
  from "1.prems" r1 r2 have c: "c = Element k t as cs' ts'" and k': "k' = j" by simp_all
  from ih1 ih2(2) have "[k..<j] = k # [Suc k..<i] @ [i..<j]"
    using upt_add_eq_append [of "Suc k" i "j - i"] by (simp add: upt_conv_Cons)
  with ih1 ih2 c k' show ?case by (auto split: if_splits)
next
  case (5 k c0 cs0)
  obtain c1 j where r1: "cloneNode k c0 = (c1, j)" by (cases "cloneNode k c0")
  obtain cs1 j' where r2: "cloneNodes j cs0 = (cs1, j')" by (cases "cloneNodes j cs0")
  from "5.IH"(1) [OF r1] have ih1: "addrs c1 = [k..<j]" "k < j" "shape c1 = shape c0"
    by simp_all
  from "5.IH"(2) [OF r1 [symmetric] r2]
  have ih2: "concat (map addrs cs1) = [j..<j']" "j \<le> j'" "map shape cs1 = map shape cs0"
    by simp_all
  from "5.prems" r1 r2 have e: "cs = c1 # cs1" "k' = j'" by simp_all
  from ih1(2) ih2(2) have "[k..<j'] = [k..<j] @ [j..<j']"
    using upt_add_eq_append [of k j "j' - j"] by simp
  with ih1 ih2 e show ?case by simp
qed simp_all

lemma addr_of_cloneNode: "addr_of (fst (cloneNode k n)) = k"
  by (cases n) (simp_all split: prod.splits)

lemma fresh_tree_cloneNode: "fresh_tree k (fst (cloneNode k n))"
proof -
  obtain c k' where r: "cloneNode k n = (c, k')" by (cases "cloneNode k n")
  from cloneNode_addrs_shape(1) [OF r] have "addrs c = [k..<k']" by simp
  with r addr_of_cloneNode [of k n] show ?thesis by (simp add: fresh_tree_def)
qed

lemma fresh_tree_prune: "fresh_tree k n \<Longrightarrow> fresh_tree k (prune P n)"
  using prune_addrs [of n P] by (auto simp: fresh_tree_def)

lemma excluded_selects: "list_ex (\<lambda>tag. selects tag n) tagsToRemove = excluded n"
  by (cases n) (auto simp: excluded_def selects_def list_ex_iff)

lemma selects_prune [simp]: "selects tag (prune P n) = selects tag n"
  by (cases n) (simp_all add: selects_def)

lemma fold_prune_tags:
  "fold (\<lambda>tag. prune (selects tag)) ts n = prune (\<lambda>c. list_ex (\<lambda>tag. selects tag c) ts) n"
proof (induction ts arbitrary: n)
  case Nil
  show ?case by (simp add: prune_none)
next
  case (Cons t ts)
  have "fold (\<lambda>tag. prune (selects tag)) (t # ts) n
        = prune (\<lambda>c. list_ex (\<lambda>tag. selects tag c) ts) (prune (selects t) n)"
    by (simp add: Cons.IH)
  also have "\<dots> = prune (\<lambda>c. selects t c \<or> list_ex (\<lambda>tag. selects tag c) ts) n"
    by (rule prune_prune) (simp add: list_ex_iff)
  finally show ?case by simp
qed

lemma clone_state_iff:
  "clone_state u cl w \<longleftrightarrow> body w = body u \<and> (\<exists>G. detached w = detached u @ cl # G)"
proof -
  have "(take (Suc (length (detached u))) (detached w) = detached u @ [cl])
        = (\<exists>G. detached w = detached u @ cl # G)"
  proof
    assume t: "take (Suc (length (detached u))) (detached w) = detached u @ [cl]"
    have "detached w = take (Suc (length (detached u))) (detached w)
                       @ drop (Suc (length (detached u))) (detached w)"
      by simp
    with t have "detached w = detached u @ cl # drop (Suc (length (detached u))) (detached w)"
      by simp
    then show "\<exists>G. detached w = detached u @ cl # G" ..
  next
    assume "\<exists>G. detached w = detached u @ cl # G"
    then show "take (Suc (length (detached u))) (detached w) = detached u @ [cl]"
      by auto
  qed
  then show ?thesis by (simp add: clone_state_def)
qed

lemma find_append_absent:
  "(\<And>x. x \<in> set xs \<Longrightarrow> \<not> P x) \<Longrightarrow> find P (xs @ ys) = find P ys"
  by (induction xs) simp_all

lemma roots_clone_state:
  "clone_state u cl w \<Longrightarrow> \<exists>G. roots w = roots u @ cl # G"
  by (auto simp: clone_state_iff roots_def)

lemma node_at_clone:
  assumes "clone_state u cl w" and "addr_of cl = k" and "old_addrs u k"
  shows "node_at k w = Some cl"
proof -
  from roots_clone_state [OF assms(1)] obtain G where G: "roots w = roots u @ cl # G" ..
  have absent: "\<not> addr_of x = k" if "x \<in> set (concat (map objects (roots u)))" for x
  proof -
    from that obtain n where n: "n \<in> set (roots u)" "x \<in> set (objects n)" by auto
    then have "addr_of x \<in> set (addrs n)" by (simp add: addrs_def)
    with assms(3) n(1) show ?thesis by (auto simp: old_addrs_def)
  qed
  have "node_at k w = find (\<lambda>n. addr_of n = k) (concat (map objects (roots u)) @ objects cl @ concat (map objects G))"
    by (simp add: node_at_def G)
  also have "\<dots> = find (\<lambda>n. addr_of n = k) (objects cl @ concat (map objects G))"
    by (rule find_append_absent) (rule absent)
  also have "\<dots> = Some cl"
  proof -
    obtain xs where "objects cl = cl # xs" using objects_head by blast
    with assms(2) show ?thesis by simp
  qed
  finally show ?thesis .
qed

lemma remove_clone_state:
  assumes "clone_state u cl w" and "\<And>n. n \<in> set (roots u) \<Longrightarrow> a \<notin> set (addrs n)"
  shows "clone_state u (detach a cl) (remove a w)"
proof -
  from assms(1) obtain G where b: "body w = body u" and G: "detached w = detached u @ cl # G"
    by (auto simp: clone_state_iff)
  have "map_option (detach a) (body u) = body u"
    using assms(2) by (cases "body u") (simp_all add: roots_def detach_absent)
  moreover have "map (detach a) (detached u) = detached u"
    using assms(2) by (simp add: roots_def detach_absent map_idI)
  ultimately show ?thesis
    by (simp add: clone_state_iff remove_def b G)
qed

lemma fold_remove_clone_state:
  assumes "\<And>a n. a \<in> set xs \<Longrightarrow> n \<in> set (roots u) \<Longrightarrow> a \<notin> set (addrs n)"
  shows "clone_state u cl w \<Longrightarrow> clone_state u (fold detach xs cl) (fold remove xs w)"
  using assms
proof (induction xs arbitrary: cl w)
  case Nil
  then show ?case by simp
next
  case (Cons a xs)
  have "clone_state u (detach a cl) (remove a w)"
    by (rule remove_clone_state [OF Cons.prems(1)]) (simp add: Cons.prems(2))
  then have "clone_state u (fold detach xs (detach a cl)) (fold remove xs (remove a w))"
    by (rule Cons.IH) (simp add: Cons.prems(2))
  then show ?case by simp
qed

lemma remove_tag_clone_state:
  assumes "clone_state u cl w" and "fresh_tree k cl" and "old_addrs u k"
  shows "clone_state u (prune (selects tag) cl) (remove_tag k tag w)"
proof -
  let ?xs = "map addr_of (filter (selects tag) (descendants cl))"
  have q: "querySelectorAll w k tag = ?xs"
    using assms(2) by (simp add: querySelectorAll_def node_at_clone [OF assms(1) _ assms(3)] fresh_tree_def)
  have "clone_state u (fold detach ?xs cl) (fold remove ?xs w)"
  proof (rule fold_remove_clone_state [OF _ assms(1)])
    fix a n assume a: "a \<in> set ?xs" and n: "n \<in> set (roots u)"
    from a have "a \<in> set (addrs cl)" by (auto dest: descendants_addrs)
    with assms(2) have "k \<le> a" by (simp add: fresh_tree_def)
    with assms(3) n show "a \<notin> set (addrs n)" by (fastforce simp: old_addrs_def)
  qed
  moreover have "fold detach ?xs cl = prune (selects tag) cl"
    using assms(2) by (simp add: fold_detach_selected fresh_tree_def)
  ultimately show ?thesis by (simp add: remove_tag_def q)
qed

lemma fold_remove_tag_clone_state:
  assumes "old_addrs u k"
  shows "clone_state u cl w \<Longrightarrow> fresh_tree k cl \<Longrightarrow>
    clone_state u (fold (\<lambda>tag. prune (selects tag)) ts cl) (fold (remove_tag k) ts w)"
proof (induction ts arbitrary: cl w)
  case Nil
  then show ?case by simp
next
  case (Cons t ts)
  have "clone_state u (prune (selects t) cl) (remove_tag k t w)"
    by (rule remove_tag_clone_state [OF Cons.prems assms])
  then have "clone_state u (fold (\<lambda>tag. prune (selects tag)) ts (prune (selects t) cl))
     (fold (remove_tag k) ts (remove_tag k t w))"
    by (rule Cons.IH) (rule fresh_tree_prune [OF Cons.prems(2)])
  then show ?case by simp
qed

lemma update_at_absent: "a \<notin> set (addrs n) \<Longrightarrow> update_at a f n = n"
  by (induction n) (auto simp: map_idI)

lemma update_at_root: "addr_of n = a \<Longrightarrow> update_at a f n = f n"
  by (cases n) simp_all

lemma mutate_clone_state:
  assumes "clone_state u cl w" and "fresh_tree k cl" and "old_addrs u k"
  shows "clone_state u (f cl) (mutate k f w)"
proof -
  from assms(1) obtain G where b: "body w = body u" and G: "detached w = detached u @ cl # G"
    by (auto simp: clone_state_iff)
  have absent: "k \<notin> set (addrs n)" if "n \<in> set (roots u)" for n
    using assms(3) that by (auto simp: old_addrs_def)
  have "map_option (update_at k f) (body u) = body u"
    using absent by (cases "body u") (simp_all add: roots_def update_at_absent)
  moreover have "map (update_at k f) (detached u) = detached u"
    using absent by (simp add: roots_def update_at_absent map_idI)
  moreover have "update_at k f cl = f cl"
    using assms(2) by (simp add: update_at_root fresh_tree_def)
  ultimately show ?thesis
    by (simp add: clone_state_iff mutate_def b G)
qed

lemma addr_of_cleanElement [simp]: "addr_of (cleanElement n) = addr_of n"
  by (cases n) simp_all

lemma wf_world_old_addrs: "wf_world w \<Longrightarrow> old_addrs w (fresh w)"
  by (simp add: wf_world_def old_addrs_def list_all_iff)

lemma reduction_clone_state:
  assumes "wf_world w" and "body w = Some b"
  shows "fst (reduction w) = Inr (fresh w) \<and>
         clone_state w (reduce_tree (fst (cloneNode (fresh w) b))) (snd (reduction w))"
proof -
  obtain c k where r: "cloneNode (fresh w) b = (c, k)" by (cases "cloneNode (fresh w) b")
  let ?w1 = "w\<lparr>detached := detached w @ [c], fresh := k\<rparr>"
  from r have c: "c = fst (cloneNode (fresh w) b)" by simp
  have ft: "fresh_tree (fresh w) c" unfolding c by (rule fresh_tree_cloneNode)
  then have ac: "addr_of c = fresh w" by (simp add: fresh_tree_def)
  have old: "old_addrs w (fresh w)" by (rule wf_world_old_addrs [OF assms(1)])
  have s1: "clone_state w c ?w1" by (simp add: clone_state_iff)
  have s2: "clone_state w (fold (\<lambda>tag. prune (selects tag)) tagsToRemove c)
              (remove_tags (fresh w) ?w1)"
    unfolding remove_tags_def by (rule fold_remove_tag_clone_state [OF old s1 ft])
  have e: "fold (\<lambda>tag. prune (selects tag)) tagsToRemove c = prune excluded c"
    by (simp add: fold_prune_tags excluded_selects)
  have "fresh_tree (fresh w) (prune excluded c)" by (rule fresh_tree_prune [OF ft])
  with s2 e have "clone_state w (cleanElement (prune excluded c))
      (mutate (fresh w) cleanElement (remove_tags (fresh w) ?w1))"
    using old by (simp add: mutate_clone_state)
  then show ?thesis
    using assms(2) r ac by (simp add: reduction_def cloneNode_deep_def reduce_tree_def)
qed

lemma reduced_eq:
  assumes "wf_world w" and "body w = Some b"
  shows "reduced w = Some (reduce_tree (fst (cloneNode (fresh w) b)))"
proof -
  from reduction_clone_state [OF assms]
  have f: "fst (reduction w) = Inr (fresh w)"
    and s: "clone_state w (reduce_tree (fst (cloneNode (fresh w) b))) (snd (reduction w))"
    by simp_all
  have "node_at (fresh w) (snd (reduction w)) = Some (reduce_tree (fst (cloneNode (fresh w) b)))"
    by (rule node_at_clone [OF s _ wf_world_old_addrs [OF assms(1)]])
       (simp add: reduce_tree_def fresh_tree_cloneNode [unfolded fresh_tree_def] addr_of_cloneNode)
  with f show ?thesis
    by (cases "reduction w") (simp add: reduced_def)
qed

lemma simplifyDOM_eq:
  assumes "wf_world w" and "body w = Some b"
  shows "fst (simplifyDOM w) = Inr (innerHTML_of (reduce_tree (fst (cloneNode (fresh w) b))))"
proof -
  from reduced_eq [OF assms] reduction_clone_state [OF assms]
  show ?thesis
    by (cases "reduction w") (simp add: reduced_def simplifyDOM_def innerHTML_def)
qed

lemma simplifyDOM_world: "snd (simplifyDOM w) = snd (reduction w)"
  by (cases "reduction w") (simp add: simplifyDOM_def split: sum.splits)

lemma reduction_body:
  assumes "wf_world w"
  shows "body (snd (reduction w)) = body w"
proof (cases "body w")
  case None
  then show ?thesis by (simp add: reduction_def)
next
  case (Some b)
  from reduction_clone_state [OF assms Some] show ?thesis by (simp add: clone_state_iff)
qed

lemma excluded_simps [simp]:
  "excluded (Element a t as cs ts) = (tag_local t \<in> set tagsToRemove)"
  "excluded (Text a v) = False"
  "excluded (Other a v) = False"
  by (simp_all add: excluded_def)

lemma excluded_prune [simp]: "excluded (prune P n) = excluded n"
  by (cases n) (simp_all add: excluded_def)

lemma excluded_cleanElement [simp]: "excluded (cleanElement n) = excluded n"
  by (cases n) (simp_all add: excluded_def)

lemma excluded_shape [simp]: "excluded (shape n) = excluded n"
  by (cases n) (simp_all add: excluded_def)

lemma stray_shape [simp]: "stray (shape n) = stray n"
  by (cases n) simp_all

lemma shape_prune:
  "(\<And>c. P (shape c) = P c) \<Longrightarrow> shape (prune P n) = prune P (shape n)"
  by (induction n) (simp_all add: filter_map comp_def cong: map_cong)

lemma shape_cleanElement:
  "shape (cleanElement n) = cleanElement (shape n)"
  "map shape (clean_children cs) = clean_children (map shape cs)"
  by (induction n and cs rule: cleanElement_clean_children.induct) simp_all

lemma shape_reduce_tree: "shape (reduce_tree n) = reduce_tree (shape n)"
  by (simp add: reduce_tree_def shape_cleanElement shape_prune)

lemma serialize_shape: "serialize scripting raw (shape n) = serialize scripting raw n"
  by (induction scripting raw n rule: serialize.induct) (simp_all add: comp_def cong: map_cong)

lemma innerHTML_of_shape: "innerHTML_of (shape n) = innerHTML_of n"
  by (cases n) (simp_all add: comp_def serialize_shape)

lemma simplifyDOM_shape:
  assumes "wf_world w" and "body w = Some b"
  shows "fst (simplifyDOM w) = Inr (innerHTML_of (reduce_tree (shape b)))"
proof -
  obtain c k where r: "cloneNode (fresh w) b = (c, k)" by (cases "cloneNode (fresh w) b")
  from cloneNode_addrs_shape(1) [OF r] have "shape c = shape b" by simp
  then have "innerHTML_of (reduce_tree (shape b)) = innerHTML_of (shape (reduce_tree c))"
    by (simp add: shape_reduce_tree)
  with simplifyDOM_eq [OF assms] r show ?thesis by (simp add: innerHTML_of_shape)
qed

lemma all_removed:
  "list_all (\<lambda>c. excluded c \<or> stray c) cs \<Longrightarrow>
     clean_children (map (prune excluded) (filter (\<lambda>c. \<not> excluded c) cs)) = []"
proof (induction cs)
  case Nil
  show ?case by simp
next
  case (Cons c cs)
  then show ?case by (cases c) auto
qed

lemma all_removed_shape:
  "list_all (\<lambda>c. excluded c \<or> stray c) cs \<Longrightarrow>
     list_all (\<lambda>c. excluded c \<or> stray c) (map shape cs)"
  by (simp add: list_all_iff)

lemma simplifyDOM_body: "wf_world w \<Longrightarrow> body (snd (simplifyDOM w)) = body w"
  by (simp add: simplifyDOM_world reduction_body)

lemma truncatedHTML_take: "truncatedHTML s = take 15000 s"
proof -
  have "nat (min 15000 (int (length s))) = min 15000 (length s)" by simp
  then show ?thesis
    by (simp add: truncatedHTML_def slice_def Let_def min_def)
qed

lemma run_locate_throws:
  assumes "wf_world w" and "launch h = None" and "goto h url = Inr w"
    and "fst (simplifyDOM w) = Inr html"
    and "complete h (prompt description (truncatedHTML html)) = Inr content"
    and "locate h (body w) (trim content) = Inl e"
  shows "getElementSelector h url description =
    (Inr None,
     [ConsoleLog (Starting url), Navigate url, Wait 2000, ConsoleLog Extracting,
      ConsoleLog Calling, Request (prompt description (truncatedHTML html)),
      ConsoleLog (Returned (trim content)), Query (trim content), ConsoleError e, Close])"
proof -
  obtain w' where s: "simplifyDOM w = (Inr html, w')"
    using assms(4) by (cases "simplifyDOM w") simp
  with simplifyDOM_body [OF assms(1)] have "body w' = body w" by simp
  with assms s show ?thesis
    by (simp add: getElementSelector_def try_block_def verify_def Let_def)
qed

lemma run_locate_matches:
  assumes "wf_world w" and "launch h = None" and "goto h url = Inr w"
    and "fst (simplifyDOM w) = Inr html"
    and "complete h (prompt description (truncatedHTML html)) = Inr content"
    and "locate h (body w) (trim content) = Inr ms"
  shows "getElementSelector h url description =
    (Inr (Some (trim content)),
     [ConsoleLog (Starting url), Navigate url, Wait 2000, ConsoleLog Extracting,
      ConsoleLog Calling, Request (prompt description (truncatedHTML html)),
      ConsoleLog (Returned (trim content)), Query (trim content)] @
     (case ms of
        [] \<Rightarrow> [ConsoleWarn (trim content)]
      | m # ms' \<Rightarrow> [ConsoleLog (Verified (length ms)), Highlight m, Wait 3000]) @
     [Close])"
proof -
  obtain w' where s: "simplifyDOM w = (Inr html, w')"
    using assms(4) by (cases "simplifyDOM w") simp
  with simplifyDOM_body [OF assms(1)] have "body w' = body w" by simp
  with assms s show ?thesis
    by (cases ms) (simp_all add: getElementSelector_def try_block_def verify_def Let_def)
qed

lemma cloneNode_Element:
  "\<exists>cs' ts' k'. cloneNode k (Element a t as cs ts) = (Element k t as cs' ts', k')"
  by (simp split: prod.splits)

subsection \<open>The example pages\<close>

lemmas tree_defs =
  html_el_def plain_def lit_def tagsToRemove_def allowedAttributes_def trim_def
  isWhiteSpace_def reduce_tree_def clean_attributes_def removeAttribute_def ascii_lower_def
  attr_name_def qname_def is_template_def

lemmas markup_defs =
  html_el_def plain_def lit_def voidTags_def rawTextTags_def serializes_as_void_def
  raw_text_def is_template_def tagname_def serialize_is_def serialize_attribute_def
  serialized_name_def attr_name_def qname_def

lemma wf_page: "wf_world page"
  by (simp add: wf_world_def page_def page_body_def page_children_def roots_def)

lemma body_page: "body page = Some page_body"
  by (simp add: page_def)

lemma cloneNode_page: "cloneNode 12 page_body = (page_clone, 24)"
  by (simp add: page_body_def page_children_def page_clone_def html_el_def is_template_def
      lit_def)

lemma reduce_tree_page: "reduce_tree page_clone = page_reduced"
  by (simp add: page_clone_def page_reduced_def tree_defs)

lemma reduced_page: "reduced page = Some page_reduced"
  using reduced_eq [OF wf_page body_page]
  by (simp add: page_def cloneNode_page reduce_tree_page)

lemma innerHTML_page_reduced: "innerHTML_of page_reduced = page_html"
  by (simp add: page_reduced_def page_html_def markup_defs)

lemma simplifyDOM_page: "fst (simplifyDOM page) = Inr page_html"
  using simplifyDOM_eq [OF wf_page body_page]
  by (simp add: page_def cloneNode_page reduce_tree_page innerHTML_page_reduced)

lemma wf_page_frames: "wf_world page_frames"
  by (simp add: wf_world_def page_frames_def page_children_def roots_def)

lemma wf_blank_page: "wf_world blank_page"
  by (simp add: wf_world_def blank_page_def removable_def roots_def)

lemma wf_blank_frames: "wf_world blank_frames"
  by (simp add: wf_world_def blank_frames_def removable_def roots_def)

lemma removable_all: "list_all (\<lambda>c. excluded c \<or> stray c) removable"
  by (simp add: removable_def html_el_def tagsToRemove_def lit_def trim_def isWhiteSpace_def)

lemma wf_template_page: "wf_world template_page"
  by (simp add: wf_world_def template_page_def template_contents_def roots_def)

lemma reduced_template_page: "reduced template_page = Some template_reduced"
proof -
  have b: "body template_page = Some (Element 0 (html_el ''body'') []
                [Element 1 (html_el ''template'') [] [] template_contents,
                 Element 8 (html_el ''p'') [] [Text 9 (lit ''k'')] []] [])"
    by (simp add: template_page_def)
  from reduced_eq [OF wf_template_page b] show ?thesis
    by (simp add: template_page_def template_contents_def template_reduced_def tree_defs)
qed

lemma simplifyDOM_template_page: "fst (simplifyDOM template_page) = Inr template_html"
proof -
  have b: "body template_page = Some (Element 0 (html_el ''body'') []
                [Element 1 (html_el ''template'') [] [] template_contents,
                 Element 8 (html_el ''p'') [] [Text 9 (lit ''k'')] []] [])"
    by (simp add: template_page_def)
  have c: "reduce_tree (fst (cloneNode (fresh template_page)
             (Element 0 (html_el ''body'') []
                [Element 1 (html_el ''template'') [] [] template_contents,
                 Element 8 (html_el ''p'') [] [Text 9 (lit ''k'')] []] []))) = template_reduced"
    by (simp add: template_page_def template_contents_def template_reduced_def tree_defs)
  have "innerHTML_of template_reduced = template_html"
    by (simp add: template_reduced_def template_html_def markup_defs)
  with simplifyDOM_eq [OF wf_template_page b] c show ?thesis by simp
qed

lemma wf_mixed_case_page: "wf_world mixed_case_page"
  by (simp add: wf_world_def mixed_case_page_def roots_def)

lemma reduced_mixed_case_page: "reduced mixed_case_page = Some mixed_case_reduced"
proof -
  have b: "body mixed_case_page = Some (Element 0 (html_el ''body'') []
      [Element 1 (html_el ''div'') [plain ''id'' ''d'', plain ''Style'' ''x''] [] []] [])"
    by (simp add: mixed_case_page_def)
  from reduced_eq [OF wf_mixed_case_page b] show ?thesis
    by (simp add: mixed_case_page_def mixed_case_reduced_def tree_defs)
qed

lemma simplifyDOM_mixed_case_page: "fst (simplifyDOM mixed_case_page) = Inr mixed_case_html"
proof -
  have b: "body mixed_case_page = Some (Element 0 (html_el ''body'') []
      [Element 1 (html_el ''div'') [plain ''id'' ''d'', plain ''Style'' ''x''] [] []] [])"
    by (simp add: mixed_case_page_def)
  have c: "reduce_tree (fst (cloneNode (fresh mixed_case_page) (Element 0 (html_el ''body'') []
      [Element 1 (html_el ''div'') [plain ''id'' ''d'', plain ''Style'' ''x''] [] []] [])))
      = mixed_case_reduced"
    by (simp add: mixed_case_page_def mixed_case_reduced_def tree_defs)
  have "innerHTML_of mixed_case_reduced = mixed_case_html"
    by (simp add: mixed_case_reduced_def mixed_case_html_def markup_defs)
  with simplifyDOM_eq [OF wf_mixed_case_page b] c show ?thesis by simp
qed

lemma wf_twice_page: "wf_world twice_page"
  by (simp add: wf_world_def twice_page_def roots_def)

lemma wf_twice_again: "wf_world twice_again"
  by (simp add: wf_world_def twice_again_def twice_reduced_def roots_def)

lemma reduced_twice_page: "reduced twice_page = Some twice_reduced"
proof -
  have b: "body twice_page = Some (Element 0 (html_el ''body'') []
                [Element 1 (html_el ''p'')
                   [plain ''class'' ''a'',
                    Attr (Some (Foreign (lit ''urn:x''))) None (lit ''class'') (lit ''c''),
                    plain ''Class'' ''b''] [] []] [])"
    by (simp add: twice_page_def)
  from reduced_eq [OF wf_twice_page b] show ?thesis
    by (simp add: twice_page_def twice_reduced_def tree_defs)
qed

lemma reduced_twice_again: "reduced twice_again = Some twice_reduced_again"
proof -
  have b: "body twice_again = Some twice_reduced"
    by (simp add: twice_again_def)
  from reduced_eq [OF wf_twice_again b] show ?thesis
    by (simp add: twice_again_def twice_reduced_def twice_reduced_again_def tree_defs)
qed

subsection \<open>The inner markup of a reduced tree\<close>

lemma is_body_plain:
  "is_body t \<Longrightarrow> \<not> serializes_as_void t \<and> \<not> raw_text True t \<and> \<not> is_template t"
  by (auto simp: is_body_def bodyTags_def serializes_as_void_def raw_text_def is_template_def
      voidTags_def rawTextTags_def lit_def)

lemma innerHTML_of_reduce_tree:
  "is_body t \<Longrightarrow>
   innerHTML_of (reduce_tree (Element a t as cs ts)) =
     concat (map (serialize True False)
       (clean_children (map (prune excluded) (filter (\<lambda>c. \<not> excluded c) cs))))"
  using is_body_plain [of t] by (simp add: reduce_tree_def)

lemma childNodes_reduce_tree:
  "childNodes (reduce_tree (Element a t as cs ts)) =
     clean_children (map (prune excluded) (filter (\<lambda>c. \<not> excluded c) cs))"
  by (simp add: reduce_tree_def)

lemma shape_body:
  "is_body t \<Longrightarrow> shape (Element a t as cs ts) = Element 0 t as (map shape cs) []"
  using is_body_plain [of t] by simp

lemma clean_children_no_stray: "d \<in> set (clean_children cs) \<Longrightarrow> \<not> stray d"
proof (induction cs)
  case Nil
  then show ?case by simp
next
  case (Cons c cs)
  then show ?case by (cases c) (auto split: if_splits)
qed

lemma trim_Nil [simp]: "trim [] = []"
  by (simp add: trim_def)

lemma escape_nonempty: "v \<noteq> [] \<Longrightarrow> escape attr v \<noteq> []"
  by (cases v) (auto simp: lit_def)

lemma serialize_nonempty: "\<not> stray n \<Longrightarrow> serialize scripting raw n \<noteq> []"
proof (cases n)
  case (Element a t as cs ts)
  then show ?thesis by (simp add: lit_def)
next
  case (Text a v)
  assume "\<not> stray n"
  with Text have "v \<noteq> []" by auto
  with Text show ?thesis by (simp add: escape_nonempty)
next
  case (Other a v)
  assume "\<not> stray n"
  with Other show ?thesis by simp
qed

lemma kept_markup_empty:
  "concat (map (serialize scripting raw) (clean_children cs)) = [] \<longleftrightarrow> clean_children cs = []"
proof
  assume e: "concat (map (serialize scripting raw) (clean_children cs)) = []"
  show "clean_children cs = []"
  proof (cases "clean_children cs")
    case Nil
    then show ?thesis .
  next
    case (Cons d ds)
    then have "d \<in> set (clean_children cs)" by simp
    then have "serialize scripting raw d \<noteq> []"
      by (intro serialize_nonempty clean_children_no_stray)
    with e Cons show ?thesis by simp
  qed
next
  assume "clean_children cs = []"
  then show "concat (map (serialize scripting raw) (clean_children cs)) = []" by simp
qed

text \<open>
  Well-formedness is what keeps the clone apart from the live tree: in a store whose
  allocator hands out addresses that are in use, removing the script of the clone
  removes the script of the live tree as well.
\<close>

lemma aliased_page_mutated:
  "\<not> wf_world aliased_page \<and>
   body (snd (simplifyDOM aliased_page)) = Some (Element 0 (html_el ''body'') [] [] [])"
proof -
  have "\<not> wf_world aliased_page"
    by (simp add: wf_world_def aliased_page_def roots_def)
  moreover have "body (snd (simplifyDOM aliased_page)) = Some (Element 0 (html_el ''body'') [] [] [])"
    apply (simp add: simplifyDOM_def reduction_def split: prod.splits sum.splits)
    apply (simp add: aliased_page_def cloneNode_deep_def html_el_def is_template_def lit_def)
    apply (simp add: remove_tags_def tagsToRemove_def remove_tag_def querySelectorAll_def
        node_at_def roots_def descendants_def selects_def remove_def mutate_def lit_def
        clean_attributes_def)
    done
  ultimately show ?thesis by simp
qed

subsection \<open>What the reduction achieves along the child lists\<close>

text \<open>
  Below the root of the reduced clone, along the child lists, there is no excluded
  element and no stray node; what is left untouched is what lies inside template
  contents.
\<close>

lemma nodes_cleanElement:
  "d \<in> set (nodes (cleanElement n)) \<Longrightarrow> \<exists>d'\<in>set (nodes n). d = cleanElement d'"
  "d \<in> set (concat (map nodes (clean_children cs))) \<Longrightarrow>
     \<exists>d'\<in>set (concat (map nodes cs)). d = cleanElement d'"
proof (induction n and cs rule: cleanElement_clean_children.induct)
  case (1 a t as cs ts)
  then show ?case by (auto simp del: set_concat)
next
  case (5 a t as cs ts rest)
  from "5.prems" have "d \<in> set (nodes (cleanElement (Element a t as cs ts))) \<or>
     d \<in> set (concat (map nodes (clean_children rest)))" by auto
  then show ?case
  proof
    assume "d \<in> set (nodes (cleanElement (Element a t as cs ts)))"
    from "5.IH"(1) [OF this] show ?thesis by auto
  next
    assume "d \<in> set (concat (map nodes (clean_children rest)))"
    from "5.IH"(2) [OF this] show ?thesis by auto
  qed
next
  case (6 a v rest)
  show ?case
  proof (cases "trim v = []")
    case True
    with "6.prems" have "d \<in> set (concat (map nodes (clean_children rest)))" by simp
    from "6.IH"(1) [OF True this] show ?thesis by auto
  next
    case False
    with "6.prems" have "d = Text a v \<or> d \<in> set (concat (map nodes (clean_children rest)))"
      by auto
    then show ?thesis
    proof
      assume "d = Text a v"
      then have "d = cleanElement (Text a v)" by simp
      then show ?thesis by (intro bexI [of _ "Text a v"]) simp_all
    next
      assume "d \<in> set (concat (map nodes (clean_children rest)))"
      from "6.IH"(2) [OF False this] show ?thesis by auto
    qed
  qed
next
  case (7 a v rest)
  from "7.prems" have "d \<in> set (concat (map nodes (clean_children rest)))" by simp
  from "7.IH" [OF this] show ?case by auto
qed simp_all

lemma descendants_cleanElement:
  "d \<in> set (descendants (cleanElement n)) \<Longrightarrow> \<exists>d'\<in>set (descendants n). d = cleanElement d'"
  using nodes_cleanElement(2) [of d "childNodes n"] by (cases n) (simp_all add: descendants_def)

lemma descendants_prune:
  assumes inv: "\<And>c. P (prune P c) = P c"
  shows "d \<in> set (descendants (prune P n)) \<Longrightarrow> \<not> P d"
proof (induction n)
  case (Element a t as cs ts)
  from Element.prems obtain c where c: "c \<in> set cs" "\<not> P c" "d \<in> set (nodes (prune P c))"
    by auto
  from c(3) have "d = prune P c \<or> d \<in> set (descendants (prune P c))"
    by (simp add: nodes_descendants)
  then show ?case
  proof
    assume "d = prune P c"
    with c(2) inv show ?thesis by simp
  next
    assume "d \<in> set (descendants (prune P c))"
    then show ?thesis by (rule Element.IH(1) [OF c(1)])
  qed
qed (simp_all add: descendants_def)

lemma reduce_tree_not_excluded:
  "d \<in> set (descendants (reduce_tree n)) \<Longrightarrow> \<not> excluded d"
proof -
  assume "d \<in> set (descendants (reduce_tree n))"
  then obtain d' where d': "d' \<in> set (descendants (prune excluded n))" "d = cleanElement d'"
    unfolding reduce_tree_def by (blast dest: descendants_cleanElement)
  from d'(1) have "\<not> excluded d'" by (rule descendants_prune [rotated]) simp
  with d'(2) show ?thesis by simp
qed

lemma clean_no_stray:
  "d \<in> set (descendants (cleanElement n)) \<Longrightarrow> \<not> stray d"
  "d \<in> set (concat (map nodes (clean_children cs))) \<Longrightarrow> \<not> stray d"
proof (induction n and cs rule: cleanElement_clean_children.induct)
  case (5 a t as cs ts rest)
  from "5.prems" have "d = cleanElement (Element a t as cs ts)
     \<or> d \<in> set (descendants (cleanElement (Element a t as cs ts)))
     \<or> d \<in> set (concat (map nodes (clean_children rest)))"
    by (auto simp: nodes_descendants)
  then show ?case using "5.IH" by auto
next
  case (6 a v rest)
  then show ?case by (cases "trim v = []") auto
qed (simp_all add: descendants_def)

lemma reduced_child_lists:
  assumes "wf_world w" and "body w = Some b"
  shows "\<exists>r. reduced w = Some r \<and> list_all (\<lambda>d. \<not> excluded d \<and> \<not> stray d) (descendants r)"
proof -
  let ?r = "reduce_tree (fst (cloneNode (fresh w) b))"
  have "reduced w = Some ?r" by (rule reduced_eq [OF assms])
  moreover have "list_all (\<lambda>d. \<not> excluded d \<and> \<not> stray d) (descendants ?r)"
    using reduce_tree_not_excluded [of _ "fst (cloneNode (fresh w) b)"]
      clean_no_stray(1) [of _ "prune excluded (fst (cloneNode (fresh w) b))"]
    by (auto simp: list_all_iff reduce_tree_def)
  ultimately show ?thesis by blast
qed

section \<open>The claims\<close>

text \<open>
  In the theorems below \<open>w\<close> is the store of the page in which \<open>simplifyDOM\<close> runs;
  \<open>reduced w\<close> is the clone after the removal of the tags and the cleaning, and the
  returned string is the inner markup of that tree.
\<close>

text \<open>
  C1 (exclusion completeness) does not hold of the code: the output of the reduction
  has to be free of \<open>script\<close>, \<open>style\<close>, \<open>noscript\<close>, \<open>iframe\<close>, \<open>svg\<close>, \<open>link\<close> and
  \<open>meta\<close> elements at any depth, but \<open>querySelectorAll\<close> does not reach the contents of a
  template, \<open>cloneNode(true)\<close> copies them and \<open>innerHTML\<close> writes them. For the page
  \<^verbatim>\<open><template><script>x=1</script>...</template><p>k</p>\<close> the nodes written to the
  returned markup include the script element, and the markup holds its tags.
\<close>

theorem template_script_survives:
  "wf_world template_page \<and> reduced template_page = Some template_reduced \<and>
   fst (simplifyDOM template_page) = Inr template_html \<and>
   filter excluded (written template_reduced)
     = [Element 12 (html_el ''script'') [] [Text 13 (lit ''x=1'')] []]"
proof -
  have "filter excluded (written template_reduced)
     = [Element 12 (html_el ''script'') [] [Text 13 (lit ''x=1'')] []]"
    by (simp add: template_reduced_def html_el_def is_template_def serializes_as_void_def
        voidTags_def tagsToRemove_def lit_def)
  with wf_template_page reduced_template_page simplifyDOM_template_page show ?thesis by simp
qed

text \<open>
  C2 (attribute closure) does not hold of the code: every surviving element has to
  carry only attributes of the allow-list, but \<open>removeAttribute\<close> puts its argument in
  lower case on an HTML element, so the attribute \<open>Style\<close> is looked up as \<open>style\<close>, is not
  found and stays; the reduced clone and the returned markup carry it. The attributes of
  the elements inside template contents are not visited at all: the markup returned for
  the template page holds \<open>style="c"\<close>.
\<close>

theorem disallowed_attribute_survives:
  "wf_world mixed_case_page \<and> reduced mixed_case_page = Some mixed_case_reduced \<and>
   fst (simplifyDOM mixed_case_page) = Inr mixed_case_html \<and>
   filter (\<lambda>d. list_ex disallowed (attributes d)) (nodes mixed_case_reduced)
     = [Element 3 (html_el ''div'') [plain ''id'' ''d'', plain ''Style'' ''x''] [] []] \<and>
   fst (simplifyDOM template_page) = Inr template_html \<and>
   filter (\<lambda>d. list_ex disallowed (attributes d)) (written template_reduced)
     = [Element 14 (html_el ''p'') [plain ''style'' ''c''] [Text 15 (lit ''t'')] []]"
proof -
  have "filter (\<lambda>d. list_ex disallowed (attributes d)) (nodes mixed_case_reduced)
     = [Element 3 (html_el ''div'') [plain ''id'' ''d'', plain ''Style'' ''x''] [] []]"
    by (simp add: mixed_case_reduced_def disallowed_def attr_name_def qname_def plain_def
        allowedAttributes_def lit_def)
  moreover have "filter (\<lambda>d. list_ex disallowed (attributes d)) (written template_reduced)
     = [Element 14 (html_el ''p'') [plain ''style'' ''c''] [Text 15 (lit ''t'')] []]"
    by (simp add: template_reduced_def disallowed_def attr_name_def qname_def plain_def
        allowedAttributes_def html_el_def is_template_def serializes_as_void_def voidTags_def
        lit_def)
  ultimately show ?thesis
    using wf_mixed_case_page reduced_mixed_case_page simplifyDOM_mixed_case_page
      simplifyDOM_template_page
    by simp
qed

text \<open>
  C3 (no stray nodes) does not hold of the code: the output has to be free of comments
  and of blank text, but the walk of \<open>cleanElement\<close> along \<open>firstChild\<close> and
  \<open>nextSibling\<close> does not enter the contents of a template. For the template page the
  nodes written to the returned markup include the comment and the blank text node of
  the template contents.
\<close>

theorem template_strays_survive:
  "wf_world template_page \<and> reduced template_page = Some template_reduced \<and>
   fst (simplifyDOM template_page) = Inr template_html \<and>
   filter stray (written template_reduced) = [Other 16 (lit ''c''), Text 17 (lit ''  '')]"
proof -
  have "filter stray (written template_reduced) = [Other 16 (lit ''c''), Text 17 (lit ''  '')]"
    by (simp add: template_reduced_def html_el_def is_template_def serializes_as_void_def
        voidTags_def lit_def trim_def isWhiteSpace_def)
  with wf_template_page reduced_template_page simplifyDOM_template_page show ?thesis by simp
qed

text \<open>
  C4 (idempotence) does not hold of the code: a second reduction has to leave the
  result of the first as it is. On an HTML element with the attributes \<open>class\<close>, a second
  \<open>class\<close> in another namespace and \<open>Class\<close>, each reduction looks \<open>Class\<close> up as \<open>class\<close>
  and removes the first attribute of that name: the first reduction leaves two
  attributes, the reduction of its result one.
\<close>

theorem second_reduction_differs:
  "wf_world twice_page \<and> reduced twice_page = Some twice_reduced \<and>
   wf_world twice_again \<and> body twice_again = reduced twice_page \<and>
   reduced twice_again = Some twice_reduced_again \<and>
   shape twice_reduced_again \<noteq> shape twice_reduced"
proof -
  have "body twice_again = reduced twice_page"
    by (simp add: twice_again_def reduced_twice_page)
  moreover have "shape twice_reduced_again \<noteq> shape twice_reduced"
    by (simp add: twice_reduced_again_def twice_reduced_def)
  ultimately show ?thesis
    using wf_twice_page reduced_twice_page wf_twice_again reduced_twice_again by simp
qed

text \<open>
  C5 (non-mutation). A call of \<open>simplifyDOM\<close> leaves the live tree as it was, and so its
  serialisation: every removal and every cleaning step addresses a node of the clone,
  and the clone shares no node with the live tree.
\<close>

theorem original_not_mutated:
  assumes "wf_world w"
  shows "body (snd (simplifyDOM w)) = body w \<and>
         map_option (serialize True False) (body (snd (simplifyDOM w))) = map_option (serialize True False) (body w)"
  using simplifyDOM_body [OF assms] by simp

theorem original_not_mutated_witness:
  "wf_world page \<and> body (snd (simplifyDOM page)) = Some page_body \<and>
   map_option (serialize True False) (body (snd (simplifyDOM page))) = Some (serialize True False page_body)"
  using original_not_mutated [OF wf_page] by (simp add: wf_page body_page)

text \<open>
  C6 (truncation bound). The string handed to the model has at most 15000 code units and
  is the prefix of that length of the untruncated markup, whatever that markup is.
\<close>

theorem truncation_bound:
  "length (truncatedHTML s) \<le> 15000 \<and> truncatedHTML s = take 15000 s"
  by (simp add: truncatedHTML_take)

text \<open>
  C7 (malformed locator), as the code has it. When the count of the locator throws, no
  highlight and no second query or request follows, the error is written to the error
  console, the browser is closed, and \<open>getElementSelector\<close> returns \<open>undefined\<close> to its
  caller: the \<open>catch\<close> block does not rethrow.
\<close>

theorem malformed_locator_caught:
  assumes "wf_world w" and "launch h = None" and "goto h url = Inr w"
    and "fst (simplifyDOM w) = Inr html"
    and "complete h (prompt description (truncatedHTML html)) = Inr content"
    and "locate h (body w) (trim content) = Inl e"
  shows "getElementSelector h url description =
    (Inr None,
     [ConsoleLog (Starting url), Navigate url, Wait 2000, ConsoleLog Extracting,
      ConsoleLog Calling, Request (prompt description (truncatedHTML html)),
      ConsoleLog (Returned (trim content)), Query (trim content), ConsoleError e, Close])"
  by (rule run_locate_throws [OF assms])

theorem malformed_locator_caught_witness:
  "wf_world page \<and> launch (example_host (lit ''p['')) = None \<and>
   goto (example_host (lit ''p['')) (lit ''u'') = Inr page \<and>
   fst (simplifyDOM page) = Inr page_html \<and>
   complete (example_host (lit ''p['')) (prompt (lit ''d'') (truncatedHTML page_html)) = Inr (lit ''p['') \<and>
   locate (example_host (lit ''p['')) (body page) (trim (lit ''p['')) = Inl (Thrown (lit ''SyntaxError'')) \<and>
   getElementSelector (example_host (lit ''p['')) (lit ''u'') (lit ''d'') =
    (Inr None,
     [ConsoleLog (Starting (lit ''u'')), Navigate (lit ''u''), Wait 2000, ConsoleLog Extracting,
      ConsoleLog Calling, Request (prompt (lit ''d'') (truncatedHTML page_html)),
      ConsoleLog (Returned (trim (lit ''p[''))), Query (trim (lit ''p['')),
      ConsoleError (Thrown (lit ''SyntaxError'')), Close])"
proof -
  have t: "trim (lit ''p['') = lit ''p[''" by (simp add: trim_def lit_def isWhiteSpace_def)
  have l: "locate (example_host (lit ''p['')) (body page) (trim (lit ''p['')) = Inl (Thrown (lit ''SyntaxError''))"
    by (simp add: t example_host_def)
  from malformed_locator_caught [of page "example_host (lit ''p['')" "lit ''u''" page_html "lit ''d''" "lit ''p[''" "Thrown (lit ''SyntaxError'')", OF wf_page _ _ simplifyDOM_page _ l]
  have "getElementSelector (example_host (lit ''p['')) (lit ''u'') (lit ''d'') =
    (Inr None,
     [ConsoleLog (Starting (lit ''u'')), Navigate (lit ''u''), Wait 2000, ConsoleLog Extracting,
      ConsoleLog Calling, Request (prompt (lit ''d'') (truncatedHTML page_html)),
      ConsoleLog (Returned (trim (lit ''p[''))), Query (trim (lit ''p['')),
      ConsoleError (Thrown (lit ''SyntaxError'')), Close])"
    by (simp add: example_host_def)
  with l show ?thesis by (simp add: wf_page simplifyDOM_page example_host_def)
qed

text \<open>
  C7 as it is stated, that the failure reaches the caller as an error, does not hold:
  with a host whose locator engine rejects the selector, the call returns \<open>undefined\<close>.
\<close>

theorem malformed_locator_not_raised:
  "locate (example_host (lit ''p['')) (body page) (trim (lit ''p['')) = Inl (Thrown (lit ''SyntaxError'')) \<and>
   fst (getElementSelector (example_host (lit ''p['')) (lit ''u'') (lit ''d'')) = Inr None \<and>
   \<not> (\<exists>e. fst (getElementSelector (example_host (lit ''p['')) (lit ''u'') (lit ''d'')) = Inl e)"
proof -
  have t: "trim (lit ''p['') = lit ''p[''" by (simp add: trim_def lit_def isWhiteSpace_def)
  have l: "locate (example_host (lit ''p['')) (body page) (trim (lit ''p['')) = Inl (Thrown (lit ''SyntaxError''))"
    by (simp add: t example_host_def)
  from run_locate_throws [of page "example_host (lit ''p['')" "lit ''u''" page_html "lit ''d''" "lit ''p[''" "Thrown (lit ''SyntaxError'')", OF wf_page _ _ simplifyDOM_page _ l]
  have "fst (getElementSelector (example_host (lit ''p['')) (lit ''u'') (lit ''d'')) = Inr None"
    by (simp add: example_host_def)
  with l show ?thesis by simp
qed

text \<open>
  C8 (zero matches). When the selector is accepted by the locator engine and matches no
  element of the live tree, the count is 0, the run writes the warning, makes no
  highlight call, closes the browser and returns the selector to the caller as it was
  queried; nothing is thrown.
\<close>

theorem zero_match_warns:
  assumes "wf_world w" and "launch h = None" and "goto h url = Inr w"
    and "fst (simplifyDOM w) = Inr html"
    and "complete h (prompt description (truncatedHTML html)) = Inr content"
    and "locate h (body w) (trim content) = Inr ms" and "length ms = 0"
  shows "getElementSelector h url description =
    (Inr (Some (trim content)),
     [ConsoleLog (Starting url), Navigate url, Wait 2000, ConsoleLog Extracting,
      ConsoleLog Calling, Request (prompt description (truncatedHTML html)),
      ConsoleLog (Returned (trim content)), Query (trim content),
      ConsoleWarn (trim content), Close])"
  using run_locate_matches [OF assms(1-6)] assms(7) by simp

theorem zero_match_warns_witness:
  "wf_world page \<and> launch (example_host (lit ''#missing'')) = None \<and>
   goto (example_host (lit ''#missing'')) (lit ''u'') = Inr page \<and>
   fst (simplifyDOM page) = Inr page_html \<and>
   complete (example_host (lit ''#missing'')) (prompt (lit ''d'') (truncatedHTML page_html))
     = Inr (lit ''#missing'') \<and>
   locate (example_host (lit ''#missing'')) (body page) (trim (lit ''#missing'')) = Inr [] \<and>
   getElementSelector (example_host (lit ''#missing'')) (lit ''u'') (lit ''d'') =
    (Inr (Some (lit ''#missing'')),
     [ConsoleLog (Starting (lit ''u'')), Navigate (lit ''u''), Wait 2000, ConsoleLog Extracting,
      ConsoleLog Calling, Request (prompt (lit ''d'') (truncatedHTML page_html)),
      ConsoleLog (Returned (lit ''#missing'')), Query (lit ''#missing''),
      ConsoleWarn (lit ''#missing''), Close])"
proof -
  have t: "trim (lit ''#missing'') = lit ''#missing''"
    by (simp add: trim_def lit_def isWhiteSpace_def)
  have l: "locate (example_host (lit ''#missing'')) (body page) (trim (lit ''#missing'')) = Inr []"
    unfolding t by (simp add: example_host_def lit_def)
  from zero_match_warns [of page "example_host (lit ''#missing'')" "lit ''u''" page_html
      "lit ''d''" "lit ''#missing''" "[]", OF wf_page _ _ simplifyDOM_page _ l]
  have "getElementSelector (example_host (lit ''#missing'')) (lit ''u'') (lit ''d'') =
    (Inr (Some (lit ''#missing'')),
     [ConsoleLog (Starting (lit ''u'')), Navigate (lit ''u''), Wait 2000, ConsoleLog Extracting,
      ConsoleLog Calling, Request (prompt (lit ''d'') (truncatedHTML page_html)),
      ConsoleLog (Returned (lit ''#missing'')), Query (lit ''#missing''),
      ConsoleWarn (lit ''#missing''), Close])"
    by (simp add: example_host_def t)
  with l show ?thesis by (simp add: wf_page simplifyDOM_page example_host_def)
qed

text \<open>
  C9 (match). When the selector matches the elements \<open>m # ms\<close> of the live tree, in
  document order, the run reports their number, highlights \<open>m\<close>, the first of them, and
  no other element, and returns the selector to the caller as it was queried.
\<close>

theorem first_match_highlighted:
  assumes "wf_world w" and "launch h = None" and "goto h url = Inr w"
    and "fst (simplifyDOM w) = Inr html"
    and "complete h (prompt description (truncatedHTML html)) = Inr content"
    and "locate h (body w) (trim content) = Inr (m # ms)"
  shows "getElementSelector h url description =
    (Inr (Some (trim content)),
     [ConsoleLog (Starting url), Navigate url, Wait 2000, ConsoleLog Extracting,
      ConsoleLog Calling, Request (prompt description (truncatedHTML html)),
      ConsoleLog (Returned (trim content)), Query (trim content),
      ConsoleLog (Verified (length (m # ms))), Highlight m, Wait 3000, Close])"
  using run_locate_matches [OF assms] by simp

theorem first_match_highlighted_witness:
  "wf_world page \<and> launch (example_host (lit '' [class] '')) = None \<and>
   goto (example_host (lit '' [class] '')) (lit ''u'') = Inr page \<and>
   fst (simplifyDOM page) = Inr page_html \<and>
   complete (example_host (lit '' [class] '')) (prompt (lit ''d'') (truncatedHTML page_html))
     = Inr (lit '' [class] '') \<and>
   locate (example_host (lit '' [class] '')) (body page) (trim (lit '' [class] '')) = Inr [0, 4] \<and>
   getElementSelector (example_host (lit '' [class] '')) (lit ''u'') (lit ''d'') =
    (Inr (Some (lit ''[class]'')),
     [ConsoleLog (Starting (lit ''u'')), Navigate (lit ''u''), Wait 2000, ConsoleLog Extracting,
      ConsoleLog Calling, Request (prompt (lit ''d'') (truncatedHTML page_html)),
      ConsoleLog (Returned (lit ''[class]'')), Query (lit ''[class]''),
      ConsoleLog (Verified 2), Highlight 0, Wait 3000, Close])"
proof -
  have t: "trim (lit '' [class] '') = lit ''[class]''"
    by (simp add: trim_def lit_def isWhiteSpace_def)
  have l: "locate (example_host (lit '' [class] '')) (body page) (trim (lit '' [class] ''))
      = Inr [0, 4]"
    unfolding t by (simp add: example_host_def lit_def)
  from first_match_highlighted [of page "example_host (lit '' [class] '')" "lit ''u''" page_html
      "lit ''d''" "lit '' [class] ''" 0 "[4]", OF wf_page _ _ simplifyDOM_page _ l]
  have "getElementSelector (example_host (lit '' [class] '')) (lit ''u'') (lit ''d'') =
    (Inr (Some (lit ''[class]'')),
     [ConsoleLog (Starting (lit ''u'')), Navigate (lit ''u''), Wait 2000, ConsoleLog Extracting,
      ConsoleLog Calling, Request (prompt (lit ''d'') (truncatedHTML page_html)),
      ConsoleLog (Returned (lit ''[class]'')), Query (lit ''[class]''),
      ConsoleLog (Verified 2), Highlight 0, Wait 3000, Close])"
    by (simp add: example_host_def t)
  with l show ?thesis by (simp add: wf_page simplifyDOM_page example_host_def)
qed

text \<open>
  C10 (inner markup only). The returned string is the concatenation of the
  serialisations of the children of the reduced clone: the root's own tag and attributes
  are not written, so two pages whose bodies differ only in tag (\<open>body\<close> or \<open>frameset\<close>),
  attributes and identity give the same string. The string is empty exactly when the
  reduced clone has no child, and it is empty when every child of the body is removed by
  the reduction.
\<close>

theorem inner_markup_only:
  assumes "wf_world w" and "body w = Some (Element a t as cs ts)" and "is_body t"
    and "wf_world w'" and "body w' = Some (Element a' t' as' cs ts')" and "is_body t'"
  shows "(\<exists>r. reduced w = Some r \<and>
              fst (simplifyDOM w) = Inr (concat (map (serialize True False) (childNodes r))) \<and>
              (fst (simplifyDOM w) = Inr [] \<longleftrightarrow> childNodes r = [])) \<and>
         fst (simplifyDOM w') = fst (simplifyDOM w) \<and>
         (list_all (\<lambda>c. excluded c \<or> stray c) cs \<longrightarrow> fst (simplifyDOM w) = Inr [])"
proof -
  let ?kept = "clean_children (map (prune excluded) (filter (\<lambda>c. \<not> excluded c) (map shape cs)))"
  have out: "fst (simplifyDOM w) = Inr (concat (map (serialize True False) ?kept))"
    using simplifyDOM_shape [OF assms(1,2)] assms(3)
    by (simp only: shape_body innerHTML_of_reduce_tree)
  have out': "fst (simplifyDOM w') = Inr (concat (map (serialize True False) ?kept))"
    using simplifyDOM_shape [OF assms(4,5)] assms(6)
    by (simp only: shape_body innerHTML_of_reduce_tree)
  have first: "\<exists>r. reduced w = Some r \<and>
      fst (simplifyDOM w) = Inr (concat (map (serialize True False) (childNodes r))) \<and>
      (fst (simplifyDOM w) = Inr [] \<longleftrightarrow> childNodes r = [])"
  proof -
    obtain cs' ts' k'
      where c: "cloneNode (fresh w) (Element a t as cs ts) = (Element (fresh w) t as cs' ts', k')"
      using cloneNode_Element by blast
    let ?r = "reduce_tree (Element (fresh w) t as cs' ts')"
    have r: "reduced w = Some ?r"
      using reduced_eq [OF assms(1,2)] c by simp
    have m: "fst (simplifyDOM w) = Inr (concat (map (serialize True False) (childNodes ?r)))"
      using simplifyDOM_eq [OF assms(1,2)] c assms(3)
      by (simp add: innerHTML_of_reduce_tree childNodes_reduce_tree)
    have "concat (map (serialize True False) (childNodes ?r)) = [] \<longleftrightarrow> childNodes ?r = []"
      unfolding childNodes_reduce_tree by (rule kept_markup_empty)
    with m have "fst (simplifyDOM w) = Inr [] \<longleftrightarrow> childNodes ?r = []" by simp
    with r m show ?thesis by blast
  qed
  have empty: "fst (simplifyDOM w) = Inr []" if "list_all (\<lambda>c. excluded c \<or> stray c) cs"
    using out all_removed [OF all_removed_shape [OF that]] by simp
  from first out out' empty show ?thesis by simp
qed

theorem inner_markup_only_witness:
  "wf_world page \<and> body page = Some (Element 0 (html_el ''body'')
      [plain ''class'' ''x'', plain ''style'' ''c''] page_children []) \<and>
   is_body (html_el ''body'') \<and> wf_world page_frames \<and>
   body page_frames = Some (Element 40 (html_el ''frameset'') [plain ''id'' ''f''] page_children []) \<and>
   is_body (html_el ''frameset'') \<and>
   reduced page = Some page_reduced \<and>
   fst (simplifyDOM page) = Inr page_html \<and>
   page_html = concat (map (serialize True False) (childNodes page_reduced)) \<and>
   childNodes page_reduced \<noteq> [] \<and> page_html \<noteq> [] \<and>
   fst (simplifyDOM page_frames) = Inr page_html \<and>
   wf_world blank_page \<and>
   body blank_page = Some (Element 0 (html_el ''body'') [plain ''class'' ''x''] removable []) \<and>
   wf_world blank_frames \<and>
   body blank_frames = Some (Element 7 (html_el ''frameset'') [] removable []) \<and>
   list_all (\<lambda>c. excluded c \<or> stray c) removable \<and>
   fst (simplifyDOM blank_page) = Inr [] \<and> fst (simplifyDOM blank_frames) = Inr []"
proof -
  have b: "body page = Some (Element 0 (html_el ''body'')
      [plain ''class'' ''x'', plain ''style'' ''c''] page_children [])"
    by (simp add: page_def page_body_def)
  have f: "body page_frames
      = Some (Element 40 (html_el ''frameset'') [plain ''id'' ''f''] page_children [])"
    by (simp add: page_frames_def)
  have tb: "is_body (html_el ''body'')" by (simp add: is_body_def html_el_def bodyTags_def)
  have tf: "is_body (html_el ''frameset'')" by (simp add: is_body_def html_el_def bodyTags_def)
  note r = inner_markup_only [OF wf_page b tb wf_page_frames f tf]
  from r have "\<exists>r. reduced page = Some r \<and>
      fst (simplifyDOM page) = Inr (concat (map (serialize True False) (childNodes r))) \<and>
      (fst (simplifyDOM page) = Inr [] \<longleftrightarrow> childNodes r = [])"
    by (rule conjunct1)
  then have m: "page_html = concat (map (serialize True False) (childNodes page_reduced))"
    and e: "(page_html = []) = (childNodes page_reduced = [])"
    by (simp_all add: reduced_page simplifyDOM_page)
  have ne: "childNodes page_reduced \<noteq> []" by (simp add: page_reduced_def)
  with e have ne': "page_html \<noteq> []" by simp
  from r have "fst (simplifyDOM page_frames) = fst (simplifyDOM page)"
    by (rule conjunct2 [THEN conjunct1])
  then have s: "fst (simplifyDOM page_frames) = Inr page_html" by (simp add: simplifyDOM_page)
  have bb: "body blank_page = Some (Element 0 (html_el ''body'') [plain ''class'' ''x''] removable [])"
    by (simp add: blank_page_def)
  have bf: "body blank_frames = Some (Element 7 (html_el ''frameset'') [] removable [])"
    by (simp add: blank_frames_def)
  note q = inner_markup_only [OF wf_blank_page bb tb wf_blank_frames bf tf]
  from q removable_all have z: "fst (simplifyDOM blank_page) = Inr []"
    by (rule conjunct2 [THEN conjunct2, THEN mp])
  from q have "fst (simplifyDOM blank_frames) = fst (simplifyDOM blank_page)"
    by (rule conjunct2 [THEN conjunct1])
  with z have z': "fst (simplifyDOM blank_frames) = Inr []" by simp
  show ?thesis
    by (intro conjI)
       (fact wf_page b tb wf_page_frames f tf reduced_page simplifyDOM_page m ne ne' s
          wf_blank_page bb wf_blank_frames bf removable_all z z')+
qed


end
